theory Spec2Isabelle
  imports
    Complex_Main
    "HOL-Library.Char_ord"
    "HOL-Library.List_Lexorder"
    "HOL-Library.Multiset"
    "HOL-Library.Stream"
begin

section \<open>Values and errors\<close>

text \<open>
  A decoded JSON document, as \<^verbatim>\<open>json.load\<close> and \<^verbatim>\<open>resp.json()\<close> return it: \<^verbatim>\<open>None\<close>,
  \<^verbatim>\<open>bool\<close>, \<^verbatim>\<open>int\<close>, \<^verbatim>\<open>float\<close>, \<^verbatim>\<open>str\<close>, \<^verbatim>\<open>list\<close> and \<^verbatim>\<open>dict\<close>. A dict keeps its
  entries in insertion order and its keys are strings; it is an association list here.
  A float is kept as the text \<^verbatim>\<open>repr\<close> gives for it (\<^verbatim>\<open>3.0\<close>, \<^verbatim>\<open>-0.5\<close>, \<^verbatim>\<open>1e+16\<close>,
  \<^verbatim>\<open>nan\<close>): \<^verbatim>\<open>str(value)\<close> of a float is that text, and it is all the program reads of
  a float.
\<close>

datatype json =
    JNull
  | JBool bool
  | JInt int
  | JFloat string
  | JString string
  | JArray "json list"
  | JObject "(string \<times> json) list"

text \<open>
  The exceptions the modelled code raises. \<open>Unmodelled\<close> is not a Python exception: it
  marks an input on which this development does not follow the interpreter (a glob
  pattern with a bracket expression, identity keys among which there is no string, a
  pipe id or a baseline path that is no string); such a result says nothing about what
  the program does.
\<close>

datatype error =
    TypeError
  | KeyError
  | FileNotFoundError string
  | AssertionError string
  | RuntimeError string
  | UnicodeDecodeError
  | HTTPError
  | Unmodelled

subsection \<open>String operations of the interpreter\<close>

definition startswith :: "string \<Rightarrow> string \<Rightarrow> bool" where
  "startswith s p = (take (length p) s = p)"

definition endswith :: "string \<Rightarrow> string \<Rightarrow> bool" where
  "endswith s p = (length p \<le> length s \<and> drop (length s - length p) s = p)"

text \<open>\<^verbatim>\<open>s.replace("\.", ".")\<close>: every backslash followed by a dot becomes a dot, left to right.\<close>

fun replace_escaped_dot :: "string \<Rightarrow> string" where
  "replace_escaped_dot (c # d # cs) =
     (if c = CHR 0x5C \<and> d = CHR ''.'' then CHR ''.'' # replace_escaped_dot cs
      else c # replace_escaped_dot (d # cs))"
| "replace_escaped_dot cs = cs"

text \<open>
  \<^verbatim>\<open>fnmatch(name, pat)\<close> of the standard library on a POSIX system (no case folding):
  \<^verbatim>\<open>*\<close> matches any run of characters, \<^verbatim>\<open>?\<close> any one character, every other character
  itself, and the whole name has to be matched.
\<close>

fun glob_match :: "string \<Rightarrow> string \<Rightarrow> bool" where
  "glob_match [] s = (s = [])"
| "glob_match (p # ps) [] = (p = CHR ''*'' \<and> glob_match ps [])"
| "glob_match (p # ps) (c # cs) =
     (if p = CHR ''*'' then glob_match ps (c # cs) \<or> glob_match (p # ps) cs
      else (p = CHR ''?'' \<or> p = c) \<and> glob_match ps cs)"

text \<open>
  The pattern comes from a decoded spec file, so it can be any JSON value: a pattern
  that is no string makes \<^verbatim>\<open>fnmatch\<close> raise \<^verbatim>\<open>TypeError\<close>. Bracket expressions are not
  followed here.
\<close>

fun fnmatch :: "string \<Rightarrow> json \<Rightarrow> error + bool" where
  "fnmatch name (JString pat) =
     (if CHR ''['' \<in> set pat then Inl Unmodelled else Inr (glob_match pat name))"
| "fnmatch name pat = Inl TypeError"

section \<open>Test specifications\<close>

text \<open>
  \<^verbatim>\<open>TestSpec\<close>: the dict \<^verbatim>\<open>_spec\<close> and the name of the spec file. The properties read the
  dict with \<^verbatim>\<open>get\<close>, so each is an optional JSON value.
\<close>

record TestSpec =
  spec :: "string \<rightharpoonup> json"
  spec_file :: string

definition file_prop :: "TestSpec \<Rightarrow> json option" where
  "file_prop ts = spec ts ''file''"

definition name :: "TestSpec \<Rightarrow> json option" where
  "name ts = spec ts ''name''"

definition endpoint :: "TestSpec \<Rightarrow> json option" where
  "endpoint ts = spec ts ''endpoint''"

definition pipe :: "TestSpec \<Rightarrow> json option" where
  "pipe ts = spec ts ''pipe''"

definition blacklist :: "TestSpec \<Rightarrow> json option" where
  "blacklist ts = spec ts ''blacklist''"

definition ignore :: "TestSpec \<Rightarrow> bool" where
  "ignore ts = (spec ts ''ignore'' = Some (JBool True))"

text \<open>\<^verbatim>\<open>name.split("/")[-1]\<close>: what follows the last slash.\<close>

definition last_segment :: "string \<Rightarrow> string" where
  "last_segment s = rev (takeWhile (\<lambda>c. c \<noteq> CHR ''/'') (rev s))"

text \<open>
  \<^verbatim>\<open>TestSpec.__init__\<close>, given the file name and the decoded content of the file. The
  defaults are derived from the file name, then overwritten by the entries of the file;
  a content that is no object raises.
\<close>

definition TestSpec_init :: "string \<Rightarrow> json \<Rightarrow> error + TestSpec" where
  "TestSpec_init filename spec_dict =
     (let nm = take (length filename - length ''.test.json'') filename;
          defaults = [''name'' \<mapsto> JString nm,
                      ''file'' \<mapsto> JString (nm @ ''.json''),
                      ''endpoint'' \<mapsto> JString ''json'',
                      ''pipe'' \<mapsto> JString (if CHR ''/'' \<in> set nm then last_segment nm else nm)]
      in case spec_dict of
           JObject kvs \<Rightarrow> Inr \<lparr>spec = defaults ++ map_of kvs, spec_file = filename\<rparr>
         | _ \<Rightarrow> Inl (AssertionError ''Test spec not a json object''))"

text \<open>
  \<^verbatim>\<open>TestSpec.is_path_blacklisted\<close>. The path components are joined with the empty string.
  The patterns are tried in order and the first match answers, so a later pattern that
  is no string is not reached.
\<close>

fun match_any :: "string \<Rightarrow> json list \<Rightarrow> error + bool" where
  "match_any prop_path [] = Inr False"
| "match_any prop_path (pattern # rest) =
     (case fnmatch prop_path pattern of
        Inl e \<Rightarrow> Inl e
      | Inr True \<Rightarrow> Inr True
      | Inr False \<Rightarrow> match_any prop_path rest)"

definition is_path_blacklisted :: "TestSpec \<Rightarrow> string list \<Rightarrow> error + bool" where
  "is_path_blacklisted ts path =
     (case blacklist ts of
        Some (JArray (p # ps)) \<Rightarrow> match_any (replace_escaped_dot (concat path)) (p # ps)
      | _ \<Rightarrow> Inr False)"

section \<open>The entity filter\<close>

text \<open>
  \<^verbatim>\<open>SesamCmdClient.filter_entity\<close>. The result starts as a deep copy of the item; for each
  entry of a dict the copy keeps the entry (\<^verbatim>\<open>continue\<close>), loses it (\<^verbatim>\<open>pop\<close>) or gets
  the filtered value under the same key. The recursive call passes \<^verbatim>\<open>parent_path\<close>, not
  \<^verbatim>\<open>path\<close>, as the source does. An exception of the blacklist test ends the whole call.
\<close>

definition keep_entry :: "'a \<Rightarrow> error + 'a list \<Rightarrow> error + 'a list" where
  "keep_entry x r = (case r of Inl e \<Rightarrow> Inl e | Inr xs \<Rightarrow> Inr (x # xs))"

fun filter_item :: "TestSpec \<Rightarrow> string list \<Rightarrow> json \<Rightarrow> error + json"
  and filter_list :: "TestSpec \<Rightarrow> string list \<Rightarrow> json list \<Rightarrow> error + json list"
  and filter_dict :: "TestSpec \<Rightarrow> string list \<Rightarrow> (string \<times> json) list \<Rightarrow> error + (string \<times> json) list"
  where
  "filter_item ts parent_path (JObject kvs) =
     (case filter_dict ts parent_path kvs of Inl e \<Rightarrow> Inl e | Inr kvs' \<Rightarrow> Inr (JObject kvs'))"
| "filter_item ts parent_path (JArray xs) =
     (case filter_list ts parent_path xs of Inl e \<Rightarrow> Inl e | Inr xs' \<Rightarrow> Inr (JArray xs'))"
| "filter_item ts parent_path JNull = Inr JNull"
| "filter_item ts parent_path (JBool b) = Inr (JBool b)"
| "filter_item ts parent_path (JInt i) = Inr (JInt i)"
| "filter_item ts parent_path (JFloat r) = Inr (JFloat r)"
| "filter_item ts parent_path (JString s) = Inr (JString s)"
| "filter_list ts parent_path [] = Inr []"
| "filter_list ts parent_path (list_item # rest) =
     (case filter_item ts parent_path list_item of
        Inl e \<Rightarrow> Inl e
      | Inr x \<Rightarrow> keep_entry x (filter_list ts parent_path rest))"
| "filter_dict ts parent_path [] = Inr []"
| "filter_dict ts parent_path ((key, v) # rest) =
     (if startswith key ''_'' then
        (if key = ''_id'' \<or> (key = ''_deleted'' \<and> v = JBool True)
         then keep_entry (key, v) (filter_dict ts parent_path rest)
         else filter_dict ts parent_path rest)
      else
        (case is_path_blacklisted ts (parent_path @ [key]) of
           Inl e \<Rightarrow> Inl e
         | Inr True \<Rightarrow> filter_dict ts parent_path rest
         | Inr False \<Rightarrow>
             (case filter_item ts parent_path v of
                Inl e \<Rightarrow> Inl e
              | Inr v' \<Rightarrow> keep_entry (key, v') (filter_dict ts parent_path rest))))"

definition filter_entity :: "json \<Rightarrow> TestSpec \<Rightarrow> error + json" where
  "filter_entity entity test_spec = filter_item test_spec [] entity"

section \<open>Structured comparison\<close>

subsection \<open>Numeric normalisation of fetched records\<close>

text \<open>
  \<^verbatim>\<open>int(value)\<close> for a float whose \<^verbatim>\<open>str\<close> ends in \<^verbatim>\<open>.0\<close>: such a text is an optional
  minus sign and decimal digits before the final \<^verbatim>\<open>.0\<close> (a text with an exponent, \<^verbatim>\<open>inf\<close>
  and \<^verbatim>\<open>nan\<close> do not end so), and the integer is the one the digits write.
\<close>

definition digit_val :: "char \<Rightarrow> nat" where
  "digit_val c = of_char c - 48"

definition nat_of_digits :: "string \<Rightarrow> nat" where
  "nat_of_digits ds = foldl (\<lambda>n c. 10 * n + digit_val c) 0 ds"

definition int_of_float :: "string \<Rightarrow> int" where
  "int_of_float v =
     (let w = take (length v - 2) v
      in case w of
           [] \<Rightarrow> 0
         | c # ds \<Rightarrow> if c = CHR ''-'' then - int (nat_of_digits ds) else int (nat_of_digits w))"

text \<open>
  \<^verbatim>\<open>SesamNode._fix_decimal_to_ints\<close>. The response of the node is decoded by \<^verbatim>\<open>resp.json()\<close>,
  which yields floats and no \<^verbatim>\<open>Decimal\<close>.
\<close>

fun fix_decimal_to_ints :: "json \<Rightarrow> json"
  and fix_list :: "json list \<Rightarrow> json list"
  and fix_dict :: "(string \<times> json) list \<Rightarrow> (string \<times> json) list"
  where
  "fix_decimal_to_ints (JObject kvs) = JObject (fix_dict kvs)"
| "fix_decimal_to_ints (JArray xs) = JArray (fix_list xs)"
| "fix_decimal_to_ints (JFloat v) =
     (if v \<noteq> [] \<and> endswith v ''.0'' then JInt (int_of_float v) else JFloat v)"
| "fix_decimal_to_ints JNull = JNull"
| "fix_decimal_to_ints (JBool b) = JBool b"
| "fix_decimal_to_ints (JInt i) = JInt i"
| "fix_decimal_to_ints (JString s) = JString s"
| "fix_list [] = []"
| "fix_list (list_item # rest) = fix_decimal_to_ints list_item # fix_list rest"
| "fix_dict [] = []"
| "fix_dict ((key, dict_value) # rest) = (key, fix_decimal_to_ints dict_value) # fix_dict rest"

text \<open>\<^verbatim>\<open>SesamNode.get_pipe_entities\<close>, given the decoded body of the response.\<close>

definition get_pipe_entities :: "json \<Rightarrow> json" where
  "get_pipe_entities resp_json = fix_decimal_to_ints resp_json"

subsection \<open>Canonical text\<close>

text \<open>
  \<^verbatim>\<open>json.dumps(value, indent=2, sort_keys=True, ensure_ascii=False)\<close>: containers are
  spread over lines with two blanks per level, the entries of a dict are written in
  the order of their keys, and only the quote, the backslash and control characters are
  escaped in a string.
\<close>

definition digit_char :: "nat \<Rightarrow> char" where
  "digit_char d = char_of (48 + d)"

fun string_of_nat :: "nat \<Rightarrow> string" where
  "string_of_nat n =
     (if n < 10 then [digit_char n] else string_of_nat (n div 10) @ [digit_char (n mod 10)])"

declare string_of_nat.simps [simp del]

definition string_of_int :: "int \<Rightarrow> string" where
  "string_of_int i = (if i < 0 then CHR ''-'' # string_of_nat (nat (- i)) else string_of_nat (nat i))"

definition hex_char :: "nat \<Rightarrow> char" where
  "hex_char d = (if d < 10 then char_of (48 + d) else char_of (87 + d))"

definition escape_char :: "char \<Rightarrow> string" where
  "escape_char c =
     (if c = CHR 0x5C then [CHR 0x5C, CHR 0x5C]
      else if c = CHR 0x22 then [CHR 0x5C, CHR 0x22]
      else if c = CHR 0x08 then [CHR 0x5C, CHR ''b'']
      else if c = CHR 0x0C then [CHR 0x5C, CHR ''f'']
      else if c = CHR 0x0A then [CHR 0x5C, CHR ''n'']
      else if c = CHR 0x0D then [CHR 0x5C, CHR ''r'']
      else if c = CHR 0x09 then [CHR 0x5C, CHR ''t'']
      else if (of_char c :: nat) < 32
        then [CHR 0x5C, CHR ''u'', CHR ''0'', CHR ''0'',
              hex_char (of_char c div 16), hex_char (of_char c mod 16)]
      else [c])"

definition encode_basestring :: "string \<Rightarrow> string" where
  "encode_basestring s = CHR 0x22 # concat (map escape_char s) @ [CHR 0x22]"

definition floatstr :: "string \<Rightarrow> string" where
  "floatstr r =
     (if r = ''nan'' then ''NaN''
      else if r = ''inf'' then ''Infinity''
      else if r = ''-inf'' then ''-Infinity''
      else r)"

definition newline_indent :: "nat \<Rightarrow> string" where
  "newline_indent level = CHR 0x0A # replicate (2 * level) CHR '' ''"

fun join :: "string \<Rightarrow> string list \<Rightarrow> string" where
  "join sep [] = []"
| "join sep [x] = x"
| "join sep (x # y # ys) = x @ sep @ join sep (y # ys)"

definition dict_line :: "string \<times> string \<Rightarrow> string" where
  "dict_line kt = encode_basestring (fst kt) @ '': '' @ snd kt"

fun dumps_level :: "nat \<Rightarrow> json \<Rightarrow> string"
  and dumps_list :: "nat \<Rightarrow> json list \<Rightarrow> string list"
  and dumps_dict :: "nat \<Rightarrow> (string \<times> json) list \<Rightarrow> (string \<times> string) list"
  where
  "dumps_level level JNull = ''null''"
| "dumps_level level (JBool b) = (if b then ''true'' else ''false'')"
| "dumps_level level (JInt i) = string_of_int i"
| "dumps_level level (JFloat r) = floatstr r"
| "dumps_level level (JString s) = encode_basestring s"
| "dumps_level level (JArray xs) =
     (if xs = [] then ''[]''
      else ''['' @ newline_indent (level + 1)
           @ join ('','' @ newline_indent (level + 1)) (dumps_list (level + 1) xs)
           @ newline_indent level @ '']'')"
| "dumps_level level (JObject kvs) =
     (if kvs = [] then ''{}''
      else ''{'' @ newline_indent (level + 1)
           @ join ('','' @ newline_indent (level + 1))
               (map dict_line (sort_key fst (dumps_dict (level + 1) kvs)))
           @ newline_indent level @ ''}'')"
| "dumps_list level [] = []"
| "dumps_list level (x # xs) = dumps_level level x # dumps_list level xs"
| "dumps_dict level [] = []"
| "dumps_dict level ((k, v) # kvs) = (k, dumps_level level v) # dumps_dict level kvs"

definition dumps :: "json \<Rightarrow> string" where
  "dumps v = dumps_level 0 v"

subsection \<open>Sorting by identity key\<close>

text \<open>\<^verbatim>\<open>e['_id']\<close>: a dict without the key raises \<^verbatim>\<open>KeyError\<close>, any other value \<^verbatim>\<open>TypeError\<close>.\<close>

fun getitem_id :: "json \<Rightarrow> error + json" where
  "getitem_id (JObject kvs) =
     (case map_of kvs ''_id'' of None \<Rightarrow> Inl KeyError | Some v \<Rightarrow> Inr v)"
| "getitem_id e = Inl TypeError"

fun id_keys :: "json list \<Rightarrow> error + json list" where
  "id_keys [] = Inr []"
| "id_keys (e # es) =
     (case getitem_id e of Inl err \<Rightarrow> Inl err | Inr k \<Rightarrow> keep_entry k (id_keys es))"

fun is_str :: "json \<Rightarrow> bool" where
  "is_str (JString s) = True"
| "is_str v = False"

fun str_id :: "json \<Rightarrow> string" where
  "str_id (JObject kvs) = (case map_of kvs ''_id'' of Some (JString s) \<Rightarrow> s | _ \<Rightarrow> [])"
| "str_id e = []"

text \<open>
  \<^verbatim>\<open>sorted(records, key=lambda e: e['_id'])\<close>. The keys of all records are computed
  first. Fewer than two records are not compared. String keys are ordered character by
  character and the sort is stable. A string key meeting a key of another type raises
  \<^verbatim>\<open>TypeError\<close>; keys among which there is no string are not followed here.
\<close>

definition sorted_by_id :: "json list \<Rightarrow> error + json list" where
  "sorted_by_id es =
     (case id_keys es of
        Inl err \<Rightarrow> Inl err
      | Inr ks \<Rightarrow>
          if length es \<le> 1 then Inr es
          else if list_all is_str ks then Inr (sort_key str_id es)
          else if list_ex is_str ks then Inl TypeError
          else Inl Unmodelled)"

subsection \<open>The json branch of verify\<close>

text \<open>Iterating over a decoded value: a list gives its items, a dict its keys, a string its characters.\<close>

fun py_iter :: "json \<Rightarrow> error + json list" where
  "py_iter (JArray xs) = Inr xs"
| "py_iter (JObject kvs) = Inr (map (\<lambda>kv. JString (fst kv)) kvs)"
| "py_iter (JString s) = Inr (map (\<lambda>c. JString [c]) s)"
| "py_iter v = Inl TypeError"

fun py_len :: "json \<Rightarrow> error + nat" where
  "py_len (JArray xs) = Inr (length xs)"
| "py_len (JObject kvs) = Inr (length kvs)"
| "py_len (JString s) = Inr (length s)"
| "py_len v = Inl TypeError"

fun filter_all :: "TestSpec \<Rightarrow> json list \<Rightarrow> error + json list" where
  "filter_all test_spec [] = Inr []"
| "filter_all test_spec (e # es) =
     (case filter_entity e test_spec of
        Inl err \<Rightarrow> Inl err
      | Inr x \<Rightarrow> keep_entry x (filter_all test_spec es))"

text \<open>
  \<^verbatim>\<open>sorted([self.filter_entity(e, test_spec) for e in self.sesam_node.get_pipe_entities(pipe)],
  key=lambda e: e['_id'])\<close>, given the decoded response of the node.
\<close>

definition current_output :: "TestSpec \<Rightarrow> json \<Rightarrow> error + json list" where
  "current_output test_spec resp_json =
     (case py_iter (get_pipe_entities resp_json) of
        Inl err \<Rightarrow> Inl err
      | Inr es \<Rightarrow>
          (case filter_all test_spec es of
             Inl err \<Rightarrow> Inl err
           | Inr fs \<Rightarrow> sorted_by_id fs))"

text \<open>
  What the json branch of \<^verbatim>\<open>SesamCmdClient.verify\<close> does with one test spec: the spec
  passes, or it is appended to \<^verbatim>\<open>failed_tests\<close> after one of two error messages, the
  length mismatch (with the expected and the current length) or the content mismatch.
  Both failing branches log a unified diff of the two canonical texts afterwards; the
  log is \<open>verify_json_log\<close> below.
\<close>

datatype outcome = Passed | LengthMismatch nat nat | ContentMismatch

definition verify_json :: "TestSpec \<Rightarrow> json \<Rightarrow> json \<Rightarrow> error + outcome" where
  "verify_json test_spec expected_output resp_json =
     (case current_output test_spec resp_json of
        Inl err \<Rightarrow> Inl err
      | Inr cur \<Rightarrow>
          (case py_len expected_output of
             Inl err \<Rightarrow> Inl err
           | Inr n \<Rightarrow>
               if length cur \<noteq> n then Inr (LengthMismatch n (length cur))
               else if dumps expected_output \<noteq> dumps (JArray cur) then Inr ContentMismatch
               else Inr Passed))"

text \<open>
  What the json branch logs for one test spec, in the order of the source: the error
  message of the failing branch and then the unified diff that \<^verbatim>\<open>get_diff_string\<close> makes
  of \<^verbatim>\<open>json.dumps\<close> of the expected and of the current records. The diff is the standard
  library's; its message holds the two texts it is made from, and the file names that
  label them are left out, as are the messages that print the values themselves.
\<close>

datatype verify_message =
    LengthMismatchError string nat nat
  | ContentMismatchError "json option"
  | DiffInfo string string

definition verify_json_log :: "TestSpec \<Rightarrow> json \<Rightarrow> json \<Rightarrow> error + verify_message list" where
  "verify_json_log test_spec expected_output resp_json =
     (case current_output test_spec resp_json of
        Inl err \<Rightarrow> Inl err
      | Inr cur \<Rightarrow>
          (case py_len expected_output of
             Inl err \<Rightarrow> Inl err
           | Inr n \<Rightarrow>
               if length cur \<noteq> n
               then Inr [LengthMismatchError (spec_file test_spec) n (length cur),
                         DiffInfo (dumps expected_output) (dumps (JArray cur))]
               else if dumps expected_output \<noteq> dumps (JArray cur)
               then Inr [ContentMismatchError (file_prop test_spec),
                         DiffInfo (dumps expected_output) (dumps (JArray cur))]
               else Inr []))"

text \<open>A record whose \<^verbatim>\<open>_id\<close> is a string, as the entities of the node have it.\<close>

fun has_str_id :: "json \<Rightarrow> bool" where
  "has_str_id (JObject kvs) =
     (case map_of kvs ''_id'' of Some (JString s) \<Rightarrow> True | _ \<Rightarrow> False)"
| "has_str_id e = False"

section \<open>Loading the test specifications\<close>

text \<open>
  \<^verbatim>\<open>SesamCmdClient.load_test_specs\<close>. The spec files that \<^verbatim>\<open>glob\<close> finds come with their
  decoded content; the file system is the set of paths of the regular files, relative
  to the working directory; \<^verbatim>\<open>existing_output_pipes\<close> is given by its keys. The log
  records the three messages of the loop and the one of the update pass.
\<close>

datatype log_line =
    RemovingOutputFile string
  | IgnoredButExists string string
  | NonExistingPipe string string
  | NoSpecForPipe string

record loader =
  test_specs :: "(string \<times> TestSpec list) list"
  files :: "string set"
  log :: "log_line list"

text \<open>\<^verbatim>\<open>if pipe_id not in test_specs: test_specs[pipe_id] = []\<close>, then \<^verbatim>\<open>append\<close>.\<close>

definition append_spec :: "string \<Rightarrow> TestSpec \<Rightarrow> loader \<Rightarrow> loader" where
  "append_spec pipe_id test_spec st =
     st\<lparr>test_specs :=
          (if pipe_id \<in> fst ` set (test_specs st)
           then map (\<lambda>kv. if fst kv = pipe_id then (fst kv, snd kv @ [test_spec]) else kv)
                  (test_specs st)
           else test_specs st @ [(pipe_id, [test_spec])])\<rparr>"

text \<open>
  One round of the loop over the spec files. \<^verbatim>\<open>os.remove\<close> of a path that is no file
  raises. A pipe id or a baseline file name that is no string is not followed here.
\<close>

definition load_spec :: "bool \<Rightarrow> string list \<Rightarrow> string \<times> json \<Rightarrow> loader \<Rightarrow> error + loader" where
  "load_spec update existing_output_pipes spec_file_content st =
     (let filename = fst spec_file_content in
      case TestSpec_init filename (snd spec_file_content) of
        Inl e \<Rightarrow> Inl e
      | Inr test_spec \<Rightarrow>
          (case pipe test_spec of
             Some (JString pipe_id) \<Rightarrow>
               if ignore test_spec then
                 (case file_prop test_spec of
                    Some (JString output_filename) \<Rightarrow>
                      if ''expected/'' @ output_filename \<in> files st then
                        (if update then
                           (if output_filename \<in> files st
                            then Inr (append_spec pipe_id test_spec
                                   (st\<lparr>files := files st - {output_filename},
                                       log := log st @ [RemovingOutputFile output_filename]\<rparr>))
                            else Inl (FileNotFoundError output_filename))
                         else Inr (append_spec pipe_id test_spec
                                (st\<lparr>log := log st @ [IgnoredButExists pipe_id filename]\<rparr>)))
                      else Inr (append_spec pipe_id test_spec st)
                  | _ \<Rightarrow> Inl Unmodelled)
               else if pipe_id \<notin> set existing_output_pipes
                 then Inr (st\<lparr>log := log st @ [NonExistingPipe pipe_id filename]\<rparr>)
               else Inr (append_spec pipe_id test_spec st)
           | _ \<Rightarrow> Inl Unmodelled))"

fun load_specs :: "bool \<Rightarrow> string list \<Rightarrow> (string \<times> json) list \<Rightarrow> loader \<Rightarrow> error + loader" where
  "load_specs update existing_output_pipes [] st = Inr st"
| "load_specs update existing_output_pipes (fc # rest) st =
     (case load_spec update existing_output_pipes fc st of
        Inl e \<Rightarrow> Inl e
      | Inr st' \<Rightarrow> load_specs update existing_output_pipes rest st')"

text \<open>The update pass: a pipe without a spec gets an empty spec file and the spec read from it.\<close>

fun create_missing :: "string list \<Rightarrow> loader \<Rightarrow> error + loader" where
  "create_missing [] st = Inr st"
| "create_missing (pipe_id # rest) st =
     (if pipe_id \<notin> fst ` set (test_specs st) then
        (let filename = ''expected/'' @ pipe_id @ ''.test.json'' in
         case TestSpec_init filename (JObject []) of
           Inl e \<Rightarrow> Inl e
         | Inr test_spec \<Rightarrow>
             create_missing rest
               (st\<lparr>test_specs := test_specs st @ [(pipe_id, [test_spec])],
                   files := insert filename (files st),
                   log := log st @ [NoSpecForPipe pipe_id]\<rparr>))
      else create_missing rest st)"

definition load_test_specs ::
  "(string \<times> json) list \<Rightarrow> string set \<Rightarrow> string list \<Rightarrow> bool \<Rightarrow> error + loader" where
  "load_test_specs spec_files fs existing_output_pipes update =
     (case load_specs update existing_output_pipes spec_files
             \<lparr>test_specs = [], files = fs, log = []\<rparr> of
        Inl e \<Rightarrow> Inl e
      | Inr st \<Rightarrow> if update then create_missing existing_output_pipes st else Inr st)"

section \<open>Comparing local and node configuration\<close>

text \<open>
  The comparison of \<^verbatim>\<open>SesamCmdClient.status\<close>, after the two archives are at hand. An
  archive is the list of its members in archive order, each with its bytes decoded as
  UTF-8 (\<open>Inl\<close> when decoding raises); reading a name gives its last member. The result is
  the list of the messages about files in the order they are logged and \<^verbatim>\<open>diff_found\<close>,
  which is set with every message. The text of the unified diff that follows a
  \<open>Differs\<close> message is not modelled.
\<close>

type_synonym zip_config = "(string \<times> (error + string)) list"

datatype message =
    NotFoundLocally string
  | NotFoundInSesam string
  | Differs string

fun message_file :: "message \<Rightarrow> string" where
  "message_file (NotFoundLocally f) = f"
| "message_file (NotFoundInSesam f) = f"
| "message_file (Differs f) = f"

fun is_remote_only :: "message \<Rightarrow> bool" where
  "is_remote_only (NotFoundLocally f) = True"
| "is_remote_only m = False"

definition namelist :: "zip_config \<Rightarrow> string list" where
  "namelist z = map fst z"

definition read_text :: "zip_config \<Rightarrow> string \<Rightarrow> error + string" where
  "read_text z f = (case map_of (rev z) f of None \<Rightarrow> Inl KeyError | Some d \<Rightarrow> d)"

fun remote_pass :: "string list \<Rightarrow> string list \<Rightarrow> message list" where
  "remote_pass [] local_files = []"
| "remote_pass (remote_file # rest) local_files =
     (if remote_file \<notin> set local_files
      then NotFoundLocally remote_file # remote_pass rest local_files
      else remote_pass rest local_files)"

fun local_pass :: "zip_config \<Rightarrow> zip_config \<Rightarrow> string list \<Rightarrow> string list \<Rightarrow> error + message list" where
  "local_pass local_config remote_config [] remote_files = Inr []"
| "local_pass local_config remote_config (local_file # rest) remote_files =
     (if local_file \<notin> set remote_files
      then keep_entry (NotFoundInSesam local_file)
             (local_pass local_config remote_config rest remote_files)
      else
        (case read_text local_config local_file of
           Inl e \<Rightarrow> Inl e
         | Inr local_file_data \<Rightarrow>
             (case read_text remote_config local_file of
                Inl e \<Rightarrow> Inl e
              | Inr remote_file_data \<Rightarrow>
                  if local_file_data \<noteq> remote_file_data
                  then keep_entry (Differs local_file)
                         (local_pass local_config remote_config rest remote_files)
                  else local_pass local_config remote_config rest remote_files)))"

definition status :: "zip_config \<Rightarrow> zip_config \<Rightarrow> error + message list \<times> bool" where
  "status local_config remote_config =
     (let remote_files = sort (namelist remote_config);
          local_files = sort (namelist local_config)
      in case local_pass local_config remote_config local_files remote_files of
           Inl e \<Rightarrow> Inl e
         | Inr ms \<Rightarrow>
             (let report = remote_pass remote_files local_files @ ms
              in Inr (report, report \<noteq> [])))"

section \<open>The scheduler run loop\<close>

text \<open>
  The command line arguments the run loop reads, and the node as the run loop sees it:
  whether the scheduler system is registered, how often it has been deleted, and what
  the node answers to each kind of poll, one stream element per request:
  \<^item> \<open>posted_config_matches\<close>: a verification poll of \<^verbatim>\<open>add_system\<close> finds the stored
    configuration equal to the posted one (a request that raises counts as \<open>False\<close>, as
    the loop swallows the exception);
  \<^item> \<open>status_running\<close>: a poll of \<^verbatim>\<open>wait_for_microservice\<close> gets a status with
    \<^verbatim>\<open>running\<close> true;
  \<^item> \<open>proxy_status\<close>: the reply of the agent's proxy status endpoint, the decoded body
    or the exception of the request;
  \<^item> \<open>start_request\<close>: the exception of the start command, if it raises;
  \<^item> \<open>log_request\<close>: the exception of the request for the log of the scheduler system
    (\<^verbatim>\<open>get_system_log\<close>), if it raises.
  Registering, looking up and deleting the system succeed. Times are in seconds.
\<close>

record args =
  custom_scheduler :: bool
  dont_remove_scheduler :: bool
  scheduler_poll_frequency :: int

record node =
  present :: bool
  deletions :: nat
  posted_config_matches :: "bool stream"
  status_running :: "bool stream"
  proxy_status :: "(error + json) stream"
  start_request :: "error option"
  log_request :: "error option"

text \<open>\<^verbatim>\<open>SesamNode.remove_system\<close>: a system that does not exist is only warned about.\<close>

definition remove_system :: "node \<Rightarrow> node" where
  "remove_system n =
     (if present n then n\<lparr>present := False, deletions := Suc (deletions n)\<rparr> else n)"

text \<open>
  The verification loop of \<^verbatim>\<open>SesamNode.add_system\<close> (\<^verbatim>\<open>while timeout > 0\<close>, five seconds
  of sleep between polls).
\<close>

function verify_posted :: "rat \<Rightarrow> node \<Rightarrow> bool \<times> node" where
  "verify_posted timeout n =
     (if timeout > 0 then
        (if shd (posted_config_matches n)
         then (True, n\<lparr>posted_config_matches := stl (posted_config_matches n)\<rparr>)
         else verify_posted (timeout - 5)
                (n\<lparr>posted_config_matches := stl (posted_config_matches n)\<rparr>))
      else (False, n))"
  by pat_completeness auto
termination
proof (relation "measure (\<lambda>(t, n). nat \<lceil>t\<rceil>)")
  show "wf (measure (\<lambda>(t :: rat, n :: node). nat \<lceil>t\<rceil>))" by simp
next
  fix timeout :: rat and n :: node
  assume "0 < timeout"
  then have "0 < \<lceil>timeout\<rceil>" by simp
  moreover have "\<lceil>timeout - 5\<rceil> = \<lceil>timeout\<rceil> - 5" by simp
  ultimately show
    "((timeout - 5, n\<lparr>posted_config_matches := stl (posted_config_matches n)\<rparr>), timeout, n)
      \<in> measure (\<lambda>(t, n). nat \<lceil>t\<rceil>)" by simp
qed

declare verify_posted.simps [simp del]

text \<open>\<^verbatim>\<open>add_system(config, verify=True)\<close>, with its default timeout of 300 seconds.\<close>

definition add_system :: "node \<Rightarrow> bool \<times> node" where
  "add_system n = verify_posted 300 (n\<lparr>present := True\<rparr>)"

text \<open>The loop of \<^verbatim>\<open>SesamNode.wait_for_microservice\<close>, of the same shape.\<close>

function wait_running :: "rat \<Rightarrow> node \<Rightarrow> bool \<times> node" where
  "wait_running timeout n =
     (if timeout > 0 then
        (if shd (status_running n)
         then (True, n\<lparr>status_running := stl (status_running n)\<rparr>)
         else wait_running (timeout - 5) (n\<lparr>status_running := stl (status_running n)\<rparr>))
      else (False, n))"
  by pat_completeness auto
termination
proof (relation "measure (\<lambda>(t, n). nat \<lceil>t\<rceil>)")
  show "wf (measure (\<lambda>(t :: rat, n :: node). nat \<lceil>t\<rceil>))" by simp
next
  fix timeout :: rat and n :: node
  assume "0 < timeout"
  then have "0 < \<lceil>timeout\<rceil>" by simp
  moreover have "\<lceil>timeout - 5\<rceil> = \<lceil>timeout\<rceil> - 5" by simp
  ultimately show
    "((timeout - 5, n\<lparr>status_running := stl (status_running n)\<rparr>), timeout, n)
      \<in> measure (\<lambda>(t, n). nat \<lceil>t\<rceil>)" by simp
qed

declare wait_running.simps [simp del]

definition wait_for_microservice :: "node \<Rightarrow> rat \<Rightarrow> (error + bool) \<times> node" where
  "wait_for_microservice n timeout =
     (if \<not> present n then (Inl (AssertionError ''Microservice system doesn't exist''), n)
      else case wait_running timeout n of (r, n') \<Rightarrow> (Inr r, n'))"

text \<open>
  \<^verbatim>\<open>SesamCmdClient.get_scheduler_status\<close>. \<open>scheduler_state\<close> is what it makes of the
  outcome of the proxy request: the exception is raised again, a dict is read at
  \<^verbatim>\<open>"state"\<close>, any other reply gives \<^verbatim>\<open>"unknown"\<close>. The request itself is refused with an
  \<^verbatim>\<open>AssertionError\<close> when the system does not exist.
\<close>

fun scheduler_state :: "error + json \<Rightarrow> error + json" where
  "scheduler_state (Inl e) = Inl e"
| "scheduler_state (Inr (JObject kvs)) =
     (case map_of kvs ''state'' of None \<Rightarrow> Inl KeyError | Some s \<Rightarrow> Inr s)"
| "scheduler_state (Inr status_json) = Inr (JString ''unknown'')"

definition get_scheduler_status :: "node \<Rightarrow> (error + json) \<times> node" where
  "get_scheduler_status n =
     (if \<not> present n then (Inl (AssertionError ''Microservice system doesn't exist''), n)
      else (scheduler_state (shd (proxy_status n)),
            n\<lparr>proxy_status := stl (proxy_status n)\<rparr>))"

text \<open>
  The loop of \<^verbatim>\<open>start_scheduler\<close> that waits for the status \<^verbatim>\<open>init\<close>: it runs while
  \<^verbatim>\<open>sleep_interval > 0\<close>, swallows an exception of the poll, and subtracts the interval
  from \<^verbatim>\<open>timeout\<close> after each sleep. It returns the timeout left and the node; \<open>None\<close> is
  a loop that does not end.
\<close>

partial_function (option) await_init :: "rat \<Rightarrow> rat \<Rightarrow> node \<Rightarrow> (rat \<times> node) option" where
  "await_init sleep_interval timeout n =
     (if sleep_interval > 0 then
        (case get_scheduler_status n of
           (Inr state, n') \<Rightarrow>
             if state = JString ''init'' then Some (timeout, n')
             else await_init sleep_interval (timeout - sleep_interval) n'
         | (Inl e, n') \<Rightarrow> await_init sleep_interval (timeout - sleep_interval) n')
      else Some (timeout, n))"

text \<open>\<^verbatim>\<open>microservice_post_proxy_request(scheduler_id, "start", ...)\<close>.\<close>

definition post_start :: "node \<Rightarrow> error + unit" where
  "post_start n =
     (if \<not> present n then Inl (AssertionError ''Microservice system doesn't exist'')
      else case start_request n of Some e \<Rightarrow> Inl e | None \<Rightarrow> Inr ())"

text \<open>
  The \<^verbatim>\<open>try\<close> block of \<^verbatim>\<open>SesamCmdClient.start_scheduler\<close>: \<open>Inl\<close> is the exception that
  reaches the handler.
\<close>

definition start_scheduler_try :: "args \<Rightarrow> rat \<Rightarrow> node \<Rightarrow> ((error + unit) \<times> node) option" where
  "start_scheduler_try a timeout n =
     (let n1 = (if present n then remove_system n else n);
          added = (if \<not> custom_scheduler a then add_system n1 else (True, n1))
      in if \<not> fst added then Some (Inl (RuntimeError ''Failed to initialise scheduler''), snd added)
         else
           (case wait_for_microservice (snd added) timeout of
              (Inl e, n3) \<Rightarrow> Some (Inl e, n3)
            | (Inr False, n3) \<Rightarrow>
                Some (Inl (RuntimeError ''Timed out waiting for scheduler to load''), n3)
            | (Inr True, n3) \<Rightarrow>
                (let sleep_interval = of_int (scheduler_poll_frequency a) / 1000 in
                 case await_init sleep_interval timeout n3 of
                   None \<Rightarrow> None
                 | Some (timeout', n4) \<Rightarrow>
                     if sleep_interval \<le> 0
                     then Some (Inl (RuntimeError ''Failed to initialise scheduler''), n4)
                     else Some (post_start n4, n4))))"

text \<open>
  \<^verbatim>\<open>start_scheduler\<close> with its handler. The handler logs the exception and then the log of
  the scheduler system, which it requests unguarded: an exception of that request leaves
  \<^verbatim>\<open>start_scheduler\<close> before anything is removed (\<open>Inl\<close>). Otherwise the system is removed
  unless \<^verbatim>\<open>dont_remove_scheduler\<close> is set, and the call returns (\<open>Inr\<close>, with the exception
  the handler caught, if any).
\<close>

definition start_scheduler :: "args \<Rightarrow> node \<Rightarrow> ((error + error option) \<times> node) option" where
  "start_scheduler a n =
     (case start_scheduler_try a 300 n of
        None \<Rightarrow> None
      | Some (Inr u, n') \<Rightarrow> Some (Inr None, n')
      | Some (Inl e, n') \<Rightarrow>
          (case log_request n' of
             Some e2 \<Rightarrow> Some (Inl e2, n')
           | None \<Rightarrow>
               Some (Inr (Some e), if dont_remove_scheduler a then n' else remove_system n')))"

text \<open>
  The \<^verbatim>\<open>while True\<close> loop of \<^verbatim>\<open>SesamCmdClient.run\<close>: it ends with the status \<^verbatim>\<open>success\<close>
  (\<^verbatim>\<open>break\<close>), with the status \<^verbatim>\<open>failed\<close> (\<^verbatim>\<open>return\<close>) or with the exception of a poll.
  Printing the scheduler log between polls changes nothing here and is left out.
\<close>

datatype run_end = Succeeded | Failed

partial_function (option) poll_scheduler :: "node \<Rightarrow> ((error + run_end) \<times> node) option" where
  "poll_scheduler n =
     (case get_scheduler_status n of
        (Inl e, n') \<Rightarrow> Some (Inl e, n')
      | (Inr state, n') \<Rightarrow>
          if state = JString ''success'' then Some (Inr Succeeded, n')
          else if state = JString ''failed'' then Some (Inr Failed, n')
          else poll_scheduler n')"

text \<open>
  \<^verbatim>\<open>SesamCmdClient.run\<close>: \<open>Inl e\<close> is the exception that leaves \<^verbatim>\<open>run\<close>, \<open>Inr\<close> a normal
  return (after \<^verbatim>\<open>success\<close> or after \<^verbatim>\<open>failed\<close>). \<^verbatim>\<open>start_scheduler\<close> is called before the
  \<^verbatim>\<open>try\<close>, so its exception leaves \<^verbatim>\<open>run\<close> at once. The \<^verbatim>\<open>finally\<close> clause of the loop
  removes the system unless \<^verbatim>\<open>dont_remove_scheduler\<close> is set.
\<close>

definition run :: "args \<Rightarrow> node \<Rightarrow> ((error + run_end) \<times> node) option" where
  "run a n =
     (case start_scheduler a n of
        None \<Rightarrow> None
      | Some (Inl e, n1) \<Rightarrow> Some (Inl e, n1)
      | Some (Inr caught, n1) \<Rightarrow>
          (case poll_scheduler n1 of
             None \<Rightarrow> None
           | Some (r, n2) \<Rightarrow>
               Some (r, if dont_remove_scheduler a then n2 else remove_system n2)))"

section \<open>Scenarios\<close>

text \<open>
  The test spec read from \<^verbatim>\<open>expected/x.test.json\<close> with the given entries, and the
  records and specs of the scenarios used below.
\<close>

definition scenario_spec :: "(string \<times> json) list \<Rightarrow> TestSpec" where
  "scenario_spec kvs =
     (case TestSpec_init ''expected/x.test.json'' (JObject kvs) of
        Inr ts \<Rightarrow> ts
      | Inl e \<Rightarrow> \<lparr>spec = Map.empty, spec_file = []\<rparr>)"

definition meta_record :: json where
  "meta_record =
     JObject [(''_id'', JString ''x''), (''meta'', JObject [(''ts'', JInt 123)]), (''val'', JInt 1)]"

definition volatile_record :: json where
  "volatile_record =
     JObject [(''_id'', JString ''x''), (''_updated'', JInt 7), (''_deleted'', JBool True),
              (''tmp'', JInt 0), (''items'', JArray [JObject [(''_ts'', JInt 1), (''n'', JInt 2)]])]"

definition entity :: "string \<Rightarrow> json" where
  "entity i = JObject [(''_id'', JString i)]"

definition entity_v :: "string \<Rightarrow> json \<Rightarrow> json" where
  "entity_v i v = JObject [(''_id'', JString i), (''v'', v)]"

definition local_zip :: zip_config where
  "local_zip = [(''a.json'', Inr ''{}''), (''b.json'', Inr ''[1]'')]"

definition remote_zip :: zip_config where
  "remote_zip = [(''c.json'', Inr ''{}''), (''b.json'', Inr ''[1]'')]"

definition baseline_files :: "string set" where
  "baseline_files = {''expected/foo.test.json'', ''expected/foo.json''}"

definition outcome_of_load :: "error + loader \<Rightarrow> error + string set \<times> log_line list" where
  "outcome_of_load r = (case r of Inl e \<Rightarrow> Inl e | Inr st \<Rightarrow> Inr (files st, log st))"

definition default_args :: args where
  "default_args =
     \<lparr>custom_scheduler = False, dont_remove_scheduler = False, scheduler_poll_frequency = 5000\<rparr>"

definition state_reply :: "string \<Rightarrow> error + json" where
  "state_reply s = Inr (JObject [(''state'', JString s)])"

text \<open>A node without a scheduler that answers every other poll at once, and whose agent reports the given states.\<close>

definition fresh_node :: "(error + json) stream \<Rightarrow> node" where
  "fresh_node replies =
     \<lparr>present = False, deletions = 0, posted_config_matches = sconst True,
      status_running = sconst True, proxy_status = replies, start_request = None,
      log_request = None\<rparr>"

text \<open>Each of the poll's replies, from here on, is a status that is neither \<^verbatim>\<open>success\<close> nor \<^verbatim>\<open>failed\<close>.\<close>

definition still_running :: "error + json \<Rightarrow> bool" where
  "still_running r =
     (case scheduler_state r of
        Inl e \<Rightarrow> False
      | Inr state \<Rightarrow> state \<noteq> JString ''success'' \<and> state \<noteq> JString ''failed'')"

definition never_finishes :: "node \<Rightarrow> bool" where
  "never_finishes n = (present n \<and> (\<forall>i. still_running (proxy_status n !! i)))"


text \<open>What is seen of a finished run: how \<^verbatim>\<open>run\<close> ended, whether the scheduler system is left on the node, and how often it was deleted.\<close>

definition run_summary ::
  "((error + run_end) \<times> node) option \<Rightarrow> ((error + run_end) \<times> bool \<times> nat) option" where
  "run_summary r = map_option (\<lambda>rn. (fst rn, present (snd rn), deletions (snd rn))) r"

text \<open>What is seen of a call that ended: how it ended, and whether the scheduler system is left on the node.\<close>

definition ending :: "('r \<times> node) option \<Rightarrow> ('r \<times> bool) option" where
  "ending r = map_option (\<lambda>rn. (fst rn, present (snd rn))) r"

text \<open>No reply of the agent, from here on, is the status \<^verbatim>\<open>init\<close>.\<close>

definition never_init :: "node \<Rightarrow> bool" where
  "never_init n = (\<forall>i. scheduler_state (proxy_status n !! i) \<noteq> Inr (JString ''init''))"

section \<open>Properties of the entity filter\<close>

lemma scenario_spec_blacklist [simp]:
  "blacklist (scenario_spec [(''blacklist'', b)]) = Some b"
  by (simp add: scenario_spec_def TestSpec_init_def blacklist_def map_add_def Let_def)

lemma scenario_spec_no_blacklist [simp]:
  "blacklist (scenario_spec []) = None"
  by (simp add: scenario_spec_def TestSpec_init_def blacklist_def map_add_def Let_def)

lemma keep_entry_Inr: "keep_entry x r = Inr ys \<longleftrightarrow> (\<exists>xs. r = Inr xs \<and> ys = x # xs)"
  by (cases r) (auto simp: keep_entry_def)

lemma keep_entry_simps [simp]:
  "keep_entry x (Inr xs) = Inr (x # xs)" "keep_entry x (Inl e) = Inl e"
  by (simp_all add: keep_entry_def)

lemma filter_idem:
  "(\<forall>y. filter_item ts pp x = Inr y \<longrightarrow> filter_item ts pp y = Inr y)"
  "(\<forall>ys. filter_list ts pp xs = Inr ys \<longrightarrow> filter_list ts pp ys = Inr ys)"
  "(\<forall>kvs'. filter_dict ts pp kvs = Inr kvs' \<longrightarrow> filter_dict ts pp kvs' = Inr kvs')"
proof (induction ts pp x and ts pp xs and ts pp kvs rule: filter_item_filter_list_filter_dict.induct)
  case (1 ts parent_path kvs)
  then show ?case by (cases "filter_dict ts parent_path kvs") auto
next
  case (2 ts parent_path xs)
  then show ?case by (cases "filter_list ts parent_path xs") auto
next
  case (9 ts parent_path list_item rest)
  show ?case
  proof (cases "filter_item ts parent_path list_item")
    case (Inl e)
    then show ?thesis by simp
  next
    case (Inr x)
    with 9 show ?thesis by (cases "filter_list ts parent_path rest") auto
  qed
next
  case (11 ts parent_path key v rest)
  show ?case
  proof (cases "startswith key ''_''")
    case True
    show ?thesis
    proof (cases "key = ''_id'' \<or> (key = ''_deleted'' \<and> v = JBool True)")
      case keep: True
      with True have eq: "filter_dict ts parent_path ((key, v) # rest)
          = keep_entry (key, v) (filter_dict ts parent_path rest)"
        by (simp only: filter_dict.simps if_True)
      show ?thesis
      proof (intro allI impI)
        fix kvs' assume "filter_dict ts parent_path ((key, v) # rest) = Inr kvs'"
        with eq obtain r where r: "filter_dict ts parent_path rest = Inr r"
          and k: "kvs' = (key, v) # r" by (auto simp: keep_entry_Inr)
        from 11(1) [OF True keep] r have "filter_dict ts parent_path r = Inr r" by blast
        with True keep show "filter_dict ts parent_path kvs' = Inr kvs'"
          unfolding k by (simp only: filter_dict.simps if_True keep_entry_simps)
      qed
    next
      case False
      with True have eq: "filter_dict ts parent_path ((key, v) # rest) = filter_dict ts parent_path rest"
        by (simp only: filter_dict.simps if_True if_False)
      from 11(2) [OF True False] show ?thesis unfolding eq .
    qed
  next
    case notus: False
    show ?thesis
    proof (cases "is_path_blacklisted ts (parent_path @ [key])")
      case (Inl e)
      with notus show ?thesis by simp
    next
      case (Inr b)
      show ?thesis
      proof (cases b)
        case True
        with notus Inr have eq: "filter_dict ts parent_path ((key, v) # rest)
            = filter_dict ts parent_path rest" by simp
        from True have bt: "b = True" by simp
        from 11(3) [OF notus Inr bt] show ?thesis unfolding eq .
      next
        case False
        show ?thesis
        proof (cases "filter_item ts parent_path v")
          case (Inl e)
          with notus Inr False show ?thesis by simp
        next
          case inner: (Inr v')
          from False have bf: "b = False" by simp
          from notus Inr False inner
          have eq: "filter_dict ts parent_path ((key, v) # rest)
              = keep_entry (key, v') (filter_dict ts parent_path rest)" by simp
          show ?thesis
          proof (intro allI impI)
            fix kvs' assume "filter_dict ts parent_path ((key, v) # rest) = Inr kvs'"
            with eq obtain r where r: "filter_dict ts parent_path rest = Inr r"
              and k: "kvs' = (key, v') # r" by (auto simp: keep_entry_Inr)
            from 11(5) [OF notus Inr bf inner] r have 1: "filter_dict ts parent_path r = Inr r"
              by blast
            from 11(4) [OF notus Inr bf] inner have 2: "filter_item ts parent_path v' = Inr v'"
              by blast
            from notus Inr False 1 2 show "filter_dict ts parent_path kvs' = Inr kvs'"
              unfolding k by simp
          qed
        qed
      qed
    qed
  qed
qed simp_all

text \<open>
  C5. The entity filter is idempotent: for every record and every test spec, filtering
  the filtered record again gives the filtered record. When the filter raises (a
  blacklist pattern that is no string), both sides are that exception.
\<close>

theorem filter_entity_idempotent:
  "(case filter_entity x ts of Inl e \<Rightarrow> Inl e | Inr y \<Rightarrow> filter_entity y ts) = filter_entity x ts"
  using filter_idem(1) [of ts "[]" x] by (auto simp: filter_entity_def split: sum.splits)

theorem filter_entity_idempotent_witness:
  "filter_entity volatile_record (scenario_spec [(''blacklist'', JArray [JString ''t?p''])]) =
     Inr (JObject [(''_id'', JString ''x''), (''_deleted'', JBool True),
                   (''items'', JArray [JObject [(''n'', JInt 2)]])])
   \<and> filter_entity
        (JObject [(''_id'', JString ''x''), (''_deleted'', JBool True),
                  (''items'', JArray [JObject [(''n'', JInt 2)]])])
        (scenario_spec [(''blacklist'', JArray [JString ''t?p''])]) =
     Inr (JObject [(''_id'', JString ''x''), (''_deleted'', JBool True),
                   (''items'', JArray [JObject [(''n'', JInt 2)]])])"
proof -
  let ?ts = "scenario_spec [(''blacklist'', JArray [JString ''t?p''])]"
  have 1: "filter_entity volatile_record ?ts =
     Inr (JObject [(''_id'', JString ''x''), (''_deleted'', JBool True),
                   (''items'', JArray [JObject [(''n'', JInt 2)]])])"
    by (simp add: filter_entity_def volatile_record_def startswith_def is_path_blacklisted_def)
  with filter_entity_idempotent [where x = volatile_record and ts = ?ts] show ?thesis by simp
qed

lemma filter_dict_drops:
  "filter_dict ts pp kvs = Inr kvs' \<Longrightarrow> \<not> startswith key ''_'' \<Longrightarrow>
   is_path_blacklisted ts (pp @ [key]) = Inr True \<Longrightarrow> (key, v) \<notin> set kvs'"
proof (induction kvs arbitrary: kvs')
  case Nil
  then show ?case by simp
next
  case (Cons kv kvs)
  obtain k w where kv: "kv = (k, w)" by (cases kv)
  show ?case
  proof (cases "filter_dict ts pp kvs")
    case (Inl e)
    with Cons.prems show ?thesis
      unfolding kv by (simp split: if_splits sum.splits bool.splits)
  next
    case (Inr rest')
    with Cons.prems have IH: "(key, v) \<notin> set rest'" by (intro Cons.IH) auto
    from Cons.prems(1) Inr have "set kvs' \<subseteq> set rest' \<or> (\<exists>w'. set kvs' = insert (k, w') (set rest')
        \<and> (startswith k ''_'' \<or> is_path_blacklisted ts (pp @ [k]) = Inr False))"
      unfolding kv by (auto split: if_splits sum.splits bool.splits)
    with IH Cons.prems(2,3) show ?thesis by auto
  qed
qed

text \<open>
  C1, as the code has it. With the blacklist \<^verbatim>\<open>["meta.*"]\<close> the record of the scenario
  comes back unchanged: the key \<^verbatim>\<open>meta\<close> is matched against the pattern by its own name,
  which \<^verbatim>\<open>meta.*\<close> does not match.
\<close>

theorem blacklist_scenario_counterexample:
  "filter_entity meta_record (scenario_spec [(''blacklist'', JArray [JString ''meta.*''])]) =
     Inr meta_record
   \<and> meta_record \<noteq> JObject [(''_id'', JString ''x''), (''val'', JInt 1)]"
  by (simp add: filter_entity_def meta_record_def startswith_def is_path_blacklisted_def)

text \<open>
  C1, amended. Every key of the record's top-level map that does not start with an
  underscore and whose name matches a blacklist glob pattern is dropped from the
  filtered record. With the blacklist \<^verbatim>\<open>["meta"]\<close> the record of the scenario is filtered
  to \<^verbatim>\<open>{"_id": "x", "val": 1}\<close>.
\<close>

theorem blacklisted_top_level_key_dropped:
  assumes "filter_entity (JObject kvs) ts = Inr r"
    and "\<not> startswith key ''_''"
    and "is_path_blacklisted ts [key] = Inr True"
  shows "\<exists>kvs'. r = JObject kvs' \<and> key \<notin> fst ` set kvs'"
proof -
  from assms(1) obtain kvs' where r: "r = JObject kvs'" and f: "filter_dict ts [] kvs = Inr kvs'"
    by (auto simp: filter_entity_def split: sum.splits)
  from assms(3) have "is_path_blacklisted ts ([] @ [key]) = Inr True" by simp
  from filter_dict_drops [OF f assms(2) this] have "key \<notin> fst ` set kvs'" by force
  with r show ?thesis by blast
qed

theorem blacklisted_top_level_key_dropped_witness:
  "filter_entity meta_record (scenario_spec [(''blacklist'', JArray [JString ''meta''])]) =
     Inr (JObject [(''_id'', JString ''x''), (''val'', JInt 1)])
   \<and> \<not> startswith ''meta'' ''_''
   \<and> is_path_blacklisted (scenario_spec [(''blacklist'', JArray [JString ''meta''])]) [''meta''] =
       Inr True
   \<and> (\<exists>kvs'. JObject [(''_id'', JString ''x''), (''val'', JInt 1)] = JObject kvs'
         \<and> ''meta'' \<notin> fst ` set kvs')"
proof -
  let ?ts = "scenario_spec [(''blacklist'', JArray [JString ''meta''])]"
  let ?r = "JObject [(''_id'', JString ''x''), (''val'', JInt 1)]"
  have 1: "filter_entity (JObject [(''_id'', JString ''x''),
             (''meta'', JObject [(''ts'', JInt 123)]), (''val'', JInt 1)]) ?ts = Inr ?r"
    by (simp add: filter_entity_def startswith_def is_path_blacklisted_def)
  have 2: "\<not> startswith ''meta'' ''_''" by (simp add: startswith_def)
  have 3: "is_path_blacklisted ?ts [''meta''] = Inr True"
    by (simp add: is_path_blacklisted_def)
  from blacklisted_top_level_key_dropped [OF 1 2 3] 1 2 3 show ?thesis
    unfolding meta_record_def by blast
qed

section \<open>Properties of the structured comparison\<close>

lemma fnmatch_error_indep: "fnmatch n pat = Inl e \<Longrightarrow> fnmatch n' pat = Inl e"
  by (cases pat) (auto split: if_splits)

lemma match_any_error_unique:
  "match_any p pats = Inl e \<Longrightarrow> match_any p' pats = Inl e' \<Longrightarrow> e = e'"
proof (induction pats)
  case Nil then show ?case by simp
next
  case (Cons pat pats)
  show ?case
  proof (cases "fnmatch p pat")
    case (Inl a)
    with fnmatch_error_indep [OF Inl, of p'] Cons.prems show ?thesis by simp
  next
    case (Inr b)
    show ?thesis
    proof (cases "fnmatch p' pat")
      case (Inl a)
      from fnmatch_error_indep [OF Inl, of p] Inr show ?thesis by simp
    next
      case Inr2: (Inr b')
      with Inr Cons show ?thesis by (auto split: bool.splits)
    qed
  qed
qed

lemma blacklist_error_unique:
  "is_path_blacklisted ts p = Inl e \<Longrightarrow> is_path_blacklisted ts p' = Inl e' \<Longrightarrow> e = e'"
  unfolding is_path_blacklisted_def
  by (cases "blacklist ts"; simp split: json.splits list.splits del: match_any.simps)
     (erule (1) match_any_error_unique)

lemma filter_error_source:
  "(\<forall>e. filter_item ts pp x = Inl e \<longrightarrow> (\<exists>p. is_path_blacklisted ts p = Inl e))"
  "(\<forall>e. filter_list ts pp xs = Inl e \<longrightarrow> (\<exists>p. is_path_blacklisted ts p = Inl e))"
  "(\<forall>e. filter_dict ts pp kvs = Inl e \<longrightarrow> (\<exists>p. is_path_blacklisted ts p = Inl e))"
proof (induction ts pp x and ts pp xs and ts pp kvs rule: filter_item_filter_list_filter_dict.induct)
  case (1 ts parent_path kvs)
  then show ?case by (cases "filter_dict ts parent_path kvs") auto
next
  case (2 ts parent_path xs)
  then show ?case by (cases "filter_list ts parent_path xs") auto
next
  case (9 ts parent_path list_item rest)
  show ?case
  proof (cases "filter_item ts parent_path list_item")
    case (Inl e)
    with 9(1) show ?thesis by simp
  next
    case (Inr x)
    from 9(2) [OF Inr] Inr show ?thesis by (cases "filter_list ts parent_path rest") auto
  qed
next
  case (11 ts parent_path key v rest)
  show ?case
  proof (cases "startswith key ''_''")
    case True
    show ?thesis
    proof (cases "key = ''_id'' \<or> (key = ''_deleted'' \<and> v = JBool True)")
      case keep: True
      with True have eq: "filter_dict ts parent_path ((key, v) # rest)
          = keep_entry (key, v) (filter_dict ts parent_path rest)"
        by (simp only: filter_dict.simps if_True)
      from 11(1) [OF True keep] show ?thesis
        unfolding eq by (cases "filter_dict ts parent_path rest") auto
    next
      case False
      with True have eq: "filter_dict ts parent_path ((key, v) # rest) = filter_dict ts parent_path rest"
        by (simp only: filter_dict.simps if_True if_False)
      from 11(2) [OF True False] show ?thesis unfolding eq .
    qed
  next
    case notus: False
    show ?thesis
    proof (cases "is_path_blacklisted ts (parent_path @ [key])")
      case (Inl e)
      with notus show ?thesis by auto
    next
      case (Inr b)
      show ?thesis
      proof (cases b)
        case True
        with notus Inr have eq: "filter_dict ts parent_path ((key, v) # rest)
            = filter_dict ts parent_path rest" by simp
        from True have bt: "b = True" by simp
        from 11(3) [OF notus Inr bt] show ?thesis unfolding eq .
      next
        case False
        then have bf: "b = False" by simp
        show ?thesis
        proof (cases "filter_item ts parent_path v")
          case (Inl e)
          with notus Inr False have "filter_dict ts parent_path ((key, v) # rest) = Inl e" by simp
          with 11(4) [OF notus Inr bf] Inl show ?thesis by simp
        next
          case inner: (Inr v')
          from notus Inr False inner
          have eq: "filter_dict ts parent_path ((key, v) # rest)
              = keep_entry (key, v') (filter_dict ts parent_path rest)" by simp
          from 11(5) [OF notus Inr bf inner] show ?thesis
            unfolding eq by (cases "filter_dict ts parent_path rest") auto
        qed
      qed
    qed
  qed
qed simp_all

lemma filter_entity_error_unique:
  "filter_entity x ts = Inl e \<Longrightarrow> filter_entity y ts = Inl e' \<Longrightarrow> e = e'"
  using filter_error_source(1) [of ts "[]" x] filter_error_source(1) [of ts "[]" y]
  by (auto simp: filter_entity_def dest: blacklist_error_unique)

lemma fix_list_map: "fix_list xs = map fix_decimal_to_ints xs"
  by (induction xs) auto

lemma map_of_fix_dict: "map_of (fix_dict kvs) k = map_option fix_decimal_to_ints (map_of kvs k)"
  by (induction kvs) auto

lemma fix_keeps_str_id:
  "has_str_id x \<Longrightarrow> has_str_id (fix_decimal_to_ints x) \<and> str_id (fix_decimal_to_ints x) = str_id x"
  by (cases x) (auto simp: map_of_fix_dict split: option.splits json.splits)

lemma filter_dict_keeps_id:
  "filter_dict ts pp kvs = Inr kvs' \<Longrightarrow> map_of kvs' ''_id'' = map_of kvs ''_id''"
proof (induction kvs arbitrary: kvs')
  case Nil
  then show ?case by simp
next
  case (Cons kv kvs)
  obtain k w where kv: "kv = (k, w)" by (cases kv)
  show ?case
  proof (cases "filter_dict ts pp kvs")
    case (Inl e)
    with Cons.prems show ?thesis
      unfolding kv by (simp split: if_splits sum.splits bool.splits)
  next
    case (Inr rest')
    then have IH: "map_of rest' ''_id'' = map_of kvs ''_id''" by (rule Cons.IH)
    show ?thesis
    proof (cases "k = ''_id''")
      case True
      with Cons.prems Inr show ?thesis unfolding kv by (auto simp: startswith_def)
    next
      case False
      with Cons.prems Inr have "kvs' = rest' \<or> (\<exists>w'. kvs' = (k, w') # rest')"
        unfolding kv by (auto split: if_splits sum.splits bool.splits)
      with False IH show ?thesis unfolding kv by auto
    qed
  qed
qed

lemma filter_keeps_str_id:
  assumes "has_str_id x" and "filter_entity x ts = Inr y"
  shows "has_str_id y \<and> str_id y = str_id x"
proof -
  from assms(1) obtain kvs where x: "x = JObject kvs" by (cases x) auto
  with assms(2) obtain kvs' where y: "y = JObject kvs'" and f: "filter_dict ts [] kvs = Inr kvs'"
    by (auto simp: filter_entity_def split: sum.splits)
  from filter_dict_keeps_id [OF f] assms(1) show ?thesis by (simp add: x y)
qed

lemma filter_all_Inr_ok:
  "filter_all ts xs = Inr ys \<Longrightarrow> x \<in> set xs \<Longrightarrow> \<exists>y. filter_entity x ts = Inr y"
proof (induction xs arbitrary: ys)
  case Nil
  then show ?case by simp
next
  case (Cons a xs)
  show ?case
  proof (cases "filter_entity a ts")
    case (Inl e)
    with Cons.prems show ?thesis by simp
  next
    case (Inr b)
    with Cons show ?thesis by (cases "filter_all ts xs") auto
  qed
qed

lemma filter_all_Inl:
  "filter_all ts xs = Inl e \<Longrightarrow> \<exists>x\<in>set xs. filter_entity x ts = Inl e"
proof (induction xs)
  case Nil
  then show ?case by simp
next
  case (Cons a xs)
  show ?case
  proof (cases "filter_entity a ts")
    case (Inl e')
    with Cons.prems show ?thesis by simp
  next
    case (Inr b)
    with Cons show ?thesis by (cases "filter_all ts xs") auto
  qed
qed

lemma filter_all_total:
  "(\<And>x. x \<in> set xs \<Longrightarrow> filter_entity x ts = Inr (g x)) \<Longrightarrow> filter_all ts xs = Inr (map g xs)"
  by (induction xs) auto

lemma id_keys_str:
  "list_all has_str_id es \<Longrightarrow> id_keys es = Inr (map (\<lambda>e. JString (str_id e)) es)"
proof (induction es)
  case Nil
  then show ?case by simp
next
  case (Cons e es)
  from Cons.prems obtain kvs where e: "e = JObject kvs" by (cases e) auto
  with Cons show ?case
    by (auto split: option.splits json.splits)
qed

lemma sorted_by_id_str:
  assumes "list_all has_str_id es"
  shows "sorted_by_id es = Inr (sort_key str_id es)"
proof -
  have short: "length es \<le> 1 \<Longrightarrow> sort_key str_id es = es"
    by (cases es) auto
  have "list_all is_str (map (\<lambda>e. JString (str_id e)) es)"
    by (simp add: list_all_iff)
  with id_keys_str [OF assms] short show ?thesis
    by (simp add: sorted_by_id_def)
qed

lemma filter_same_key:
  "distinct (map f zs) \<Longrightarrow> k \<in> set zs \<Longrightarrow> filter (\<lambda>x. f k = f x) zs = [k]"
proof (induction zs)
  case Nil
  then show ?case by simp
next
  case (Cons z zs)
  show ?case
  proof (cases "k = z")
    case True
    with Cons.prems have "\<And>x. x \<in> set zs \<Longrightarrow> f k \<noteq> f x" by auto
    then have "filter (\<lambda>x. f k = f x) zs = []" by (simp add: filter_empty_conv)
    with True show ?thesis by simp
  next
    case False
    with Cons.prems have kz: "k \<in> set zs" by simp
    from Cons.prems have "f z \<notin> f ` set zs" by simp
    with kz have "f k \<noteq> f z" by (metis imageI)
    with kz Cons show ?thesis by simp
  qed
qed

lemma distinct_map_mset:
  assumes "mset ys = mset xs" and "distinct (map f xs)"
  shows "distinct (map f ys)"
proof -
  have "mset (map f ys) = mset (map f xs)" using assms(1) by simp
  then show ?thesis using assms(2) by (metis mset_eq_imp_distinct_iff)
qed

lemma sort_key_perm:
  assumes "mset ys = mset xs" and "distinct (map f xs)"
  shows "sort_key f ys = sort_key f xs"
proof (rule properties_for_sort_key)
  show "mset (sort_key f xs) = mset ys" using assms(1) by simp
  show "sorted (map f (sort_key f xs))" by simp
  fix k assume k: "k \<in> set (sort_key f xs)"
  have "mset (sort_key f xs) = mset xs" by simp
  from distinct_map_mset [OF this assms(2)] k
  have 1: "filter (\<lambda>x. f k = f x) (sort_key f xs) = [k]" by (rule filter_same_key)
  from k assms(1) have "k \<in> set ys" by (metis mset_eq_setD set_sort)
  with distinct_map_mset [OF assms] have "filter (\<lambda>x. f k = f x) ys = [k]" by (rule filter_same_key)
  with 1 show "filter (\<lambda>x. f k = f x) (sort_key f xs) = filter (\<lambda>x. f k = f x) ys" by simp
qed

lemma current_output_perm:
  assumes perm: "mset rs' = mset rs"
    and ids: "list_all has_str_id rs"
    and dist: "distinct (map str_id rs)"
  shows "current_output ts (JArray rs') = current_output ts (JArray rs)"
proof -
  define xs where "xs = map fix_decimal_to_ints rs"
  define xs' where "xs' = map fix_decimal_to_ints rs'"
  have mx: "mset xs' = mset xs" using perm by (simp add: xs_def xs'_def)
  then have sx: "set xs' = set xs" by (rule mset_eq_setD)
  have idx: "\<And>x. x \<in> set xs \<Longrightarrow> has_str_id x"
    using ids fix_keeps_str_id by (auto simp: xs_def list_all_iff)
  have "map str_id xs = map str_id rs"
    using ids fix_keeps_str_id by (auto simp: xs_def list_all_iff)
  with dist have dx: "distinct (map str_id xs)" by simp
  have co: "\<And>zs. current_output ts (JArray zs) =
      (case filter_all ts (map fix_decimal_to_ints zs) of Inl e \<Rightarrow> Inl e | Inr fs \<Rightarrow> sorted_by_id fs)"
    by (simp add: current_output_def get_pipe_entities_def fix_list_map)
  show ?thesis
  proof (cases "filter_all ts xs")
    case (Inl e)
    then obtain x where "x \<in> set xs" and ex: "filter_entity x ts = Inl e"
      by (blast dest: filter_all_Inl)
    with sx have "x \<in> set xs'" by simp
    have "\<exists>e'. filter_all ts xs' = Inl e'"
    proof (cases "filter_all ts xs'")
      case (Inr ys)
      from filter_all_Inr_ok [OF this \<open>x \<in> set xs'\<close>] ex show ?thesis by simp
    qed simp
    then obtain e' where e': "filter_all ts xs' = Inl e'" ..
    then obtain x' where "filter_entity x' ts = Inl e'" by (blast dest: filter_all_Inl)
    with ex have "e = e'" by (rule filter_entity_error_unique)
    with Inl e' show ?thesis by (simp add: co xs_def xs'_def)
  next
    case (Inr ys)
    define g where "g x = projr (filter_entity x ts)" for x
    have g: "filter_entity x ts = Inr (g x)" if "x \<in> set xs" for x
    proof -
      from filter_all_Inr_ok [OF Inr that] obtain y where "filter_entity x ts = Inr y" ..
      then show ?thesis by (simp add: g_def)
    qed
    then have f: "filter_all ts xs = Inr (map g xs)" by (rule filter_all_total)
    from g sx have f': "filter_all ts xs' = Inr (map g xs')" by (auto intro: filter_all_total)
    have keep: "\<And>x. x \<in> set xs \<Longrightarrow> has_str_id (g x) \<and> str_id (g x) = str_id x"
      using filter_keeps_str_id idx g by blast
    then have a1: "list_all has_str_id (map g xs)" by (simp add: list_all_iff)
    from keep sx have a2: "list_all has_str_id (map g xs')" by (simp add: list_all_iff)
    from keep have "map (\<lambda>x. str_id (g x)) xs = map str_id xs" by (intro map_cong) auto
    then have "map str_id (map g xs) = map str_id xs" by (simp add: comp_def)
    with dx have d: "distinct (map str_id (map g xs))" by (simp only:)
    have "mset (map g xs') = mset (map g xs)" using mx by simp
    from sort_key_perm [OF this d] show ?thesis
      by (simp add: co f f' sorted_by_id_str [OF a1] sorted_by_id_str [OF a2]
          flip: xs_def xs'_def)
  qed
qed

text \<open>
  C2, as the code has it. Only the fetched records are sorted; the expected records are
  compared in the order of the baseline file. The same fetched records pass against
  the baseline \<^verbatim>\<open>[a, b]\<close> and fail against the permuted baseline \<^verbatim>\<open>[b, a]\<close>.
\<close>

theorem expected_order_counterexample:
  "verify_json (scenario_spec []) (JArray [entity ''a'', entity ''b''])
     (JArray [entity ''a'', entity ''b'']) = Inr Passed
   \<and> verify_json (scenario_spec []) (JArray [entity ''b'', entity ''a''])
     (JArray [entity ''a'', entity ''b'']) = Inr ContentMismatch"
  by (simp add: verify_json_def current_output_def get_pipe_entities_def entity_def
      filter_entity_def startswith_def sorted_by_id_def dumps_def newline_indent_def
      dict_line_def encode_basestring_def escape_char_def)

text \<open>
  C2, amended. The comparison sorts the filtered fetched records by the identity key;
  the expected records are taken as the baseline file has them. Permuting the fetched
  records, each with a string identity and no two with the same one, does not change
  the outcome of the comparison.
\<close>

theorem verify_json_fetch_order:
  assumes "mset rs' = mset rs"
    and "list_all has_str_id rs"
    and "distinct (map str_id rs)"
  shows "verify_json ts expected (JArray rs') = verify_json ts expected (JArray rs)"
  by (simp add: verify_json_def current_output_perm [OF assms])

theorem verify_json_fetch_order_witness:
  "mset [entity ''b'', entity ''a''] = mset [entity ''a'', entity ''b'']
   \<and> list_all has_str_id [entity ''a'', entity ''b'']
   \<and> distinct (map str_id [entity ''a'', entity ''b''])
   \<and> verify_json (scenario_spec []) (JArray [entity ''a'', entity ''b''])
        (JArray [entity ''b'', entity ''a''])
     = verify_json (scenario_spec []) (JArray [entity ''a'', entity ''b''])
        (JArray [entity ''a'', entity ''b''])"
proof -
  have 1: "mset [entity ''b'', entity ''a''] = mset [entity ''a'', entity ''b'']"
    by (simp add: add.commute)
  have 2: "list_all has_str_id [entity ''a'', entity ''b'']" by (simp add: entity_def)
  have 3: "distinct (map str_id [entity ''a'', entity ''b''])" by (simp add: entity_def)
  from verify_json_fetch_order [OF 1 2 3] 1 2 3 show ?thesis by blast
qed

lemma filter_all_length: "filter_all ts xs = Inr ys \<Longrightarrow> length ys = length xs"
proof (induction xs arbitrary: ys)
  case Nil
  then show ?case by simp
next
  case (Cons a xs)
  show ?case
  proof (cases "filter_entity a ts")
    case (Inl e)
    with Cons.prems show ?thesis by simp
  next
    case (Inr b)
    with Cons show ?thesis by (cases "filter_all ts xs") auto
  qed
qed

lemma sorted_by_id_length: "sorted_by_id es = Inr ys \<Longrightarrow> length ys = length es"
  by (auto simp: sorted_by_id_def split: sum.splits if_splits)

lemma current_output_length:
  assumes "current_output ts (JArray rs) = Inr cur"
  shows "length cur = length rs"
proof -
  from assms obtain fs where f: "filter_all ts (fix_list rs) = Inr fs" and s: "sorted_by_id fs = Inr cur"
    by (auto simp: current_output_def get_pipe_entities_def split: sum.splits)
  from filter_all_length [OF f] sorted_by_id_length [OF s] show ?thesis
    by (simp add: fix_list_map)
qed

text \<open>
  C3, as the code has it. For the expected records \<^verbatim>\<open>[{_id: a}, {_id: b}]\<close> and the current
  records \<^verbatim>\<open>[{_id: a}]\<close> the branch of the length mismatch serializes both sides and logs
  their unified diff after the length mismatch: the canonical texts are compared by the
  diff, though not tested for equality.
\<close>

theorem length_mismatch_diff_counterexample:
  "verify_json_log (scenario_spec []) (JArray [entity ''a'', entity ''b'']) (JArray [entity ''a''])
     = Inr [LengthMismatchError ''expected/x.test.json'' 2 1,
            DiffInfo (dumps (JArray [entity ''a'', entity ''b''])) (dumps (JArray [entity ''a'']))]"
  by (simp add: verify_json_log_def current_output_def get_pipe_entities_def entity_def
      filter_entity_def startswith_def sorted_by_id_def scenario_spec_def TestSpec_init_def
      Let_def)

text \<open>
  C3, amended. When the number of records fetched differs from the number of expected
  records, the spec fails with the length mismatch, whatever the contents are: filtering
  and sorting drop no record, so the current count is the number of records fetched, and
  the test of the two canonical texts for equality is not made. The log has the length
  mismatch (with the file of the spec, the expected and the current count) and then the
  unified diff of the canonical texts of the expected and of the current records. For
  the expected records \<^verbatim>\<open>[{_id: a}, {_id: b}]\<close> and the current records \<^verbatim>\<open>[{_id: a}]\<close> the
  reason is the length mismatch, expected 2 got 1.
\<close>

theorem length_mismatch_reason_and_diff:
  assumes "current_output ts (JArray rs) = Inr cur"
    and "py_len expected = Inr n"
    and "length rs \<noteq> n"
  shows "verify_json ts expected (JArray rs) = Inr (LengthMismatch n (length rs))
       \<and> verify_json_log ts expected (JArray rs)
           = Inr [LengthMismatchError (spec_file ts) n (length rs),
                  DiffInfo (dumps expected) (dumps (JArray cur))]"
  using assms current_output_length [OF assms(1)]
  by (simp add: verify_json_def verify_json_log_def)

theorem length_mismatch_reason_and_diff_witness:
  "current_output (scenario_spec []) (JArray [entity ''a'']) = Inr [entity ''a'']
   \<and> py_len (JArray [entity ''a'', entity ''b'']) = Inr 2
   \<and> length [entity ''a''] \<noteq> 2
   \<and> verify_json (scenario_spec []) (JArray [entity ''a'', entity ''b'']) (JArray [entity ''a''])
       = Inr (LengthMismatch 2 1)
   \<and> verify_json_log (scenario_spec []) (JArray [entity ''a'', entity ''b'']) (JArray [entity ''a''])
       = Inr [LengthMismatchError (spec_file (scenario_spec [])) 2 1,
              DiffInfo (dumps (JArray [entity ''a'', entity ''b''])) (dumps (JArray [entity ''a'']))]"
proof -
  have 1: "current_output (scenario_spec []) (JArray [entity ''a'']) = Inr [entity ''a'']"
    by (simp add: current_output_def get_pipe_entities_def entity_def filter_entity_def
        startswith_def sorted_by_id_def)
  have 2: "py_len (JArray [entity ''a'', entity ''b'']) = Inr 2" by simp
  have 3: "length [entity ''a''] \<noteq> 2" by simp
  from length_mismatch_reason_and_diff [OF 1 2 3] 1 2 3 show ?thesis by simp
qed

lemma fix_idem:
  "fix_decimal_to_ints (fix_decimal_to_ints x) = fix_decimal_to_ints x"
  "fix_list (fix_list xs) = fix_list xs"
  "fix_dict (fix_dict kvs) = fix_dict kvs"
  by (induction x and xs and kvs rule: fix_decimal_to_ints_fix_list_fix_dict.induct) auto

text \<open>
  C4, as the code has it. The expected records are not normalised: a baseline that
  holds \<^verbatim>\<open>3.0\<close> where the node delivers \<^verbatim>\<open>3\<close> fails with a content mismatch.
\<close>

theorem expected_float_counterexample:
  "verify_json (scenario_spec []) (JArray [entity_v ''a'' (JFloat ''3.0'')])
     (JArray [entity_v ''a'' (JInt 3)]) = Inr ContentMismatch"
  by (simp add: verify_json_def current_output_def get_pipe_entities_def entity_v_def
      filter_entity_def startswith_def is_path_blacklisted_def sorted_by_id_def dumps_def
      newline_indent_def dict_line_def encode_basestring_def escape_char_def floatstr_def
      string_of_int_def string_of_nat.simps digit_char_def)

text \<open>
  C4, amended. The fetched records are normalised before the comparison, recursively
  through maps and sequences: the outcome for a response is the outcome for its
  normalised form, in which every float whose text ends in \<^verbatim>\<open>.0\<close> is the integer. The
  expected records are compared as the baseline file has them. A fetched field \<^verbatim>\<open>3.0\<close>
  compares equal to an expected field \<^verbatim>\<open>3\<close>.
\<close>

theorem verify_json_normalises_fetched:
  "verify_json ts expected resp = verify_json ts expected (fix_decimal_to_ints resp)"
  by (simp add: verify_json_def current_output_def get_pipe_entities_def fix_idem)

theorem verify_json_normalises_fetched_witness:
  "fix_decimal_to_ints (JArray [entity_v ''a'' (JArray [JFloat ''3.0''])])
     = JArray [entity_v ''a'' (JArray [JInt 3])]
   \<and> verify_json (scenario_spec []) (JArray [entity_v ''a'' (JArray [JInt 3])])
        (JArray [entity_v ''a'' (JArray [JFloat ''3.0''])]) = Inr Passed"
proof -
  have 1: "fix_decimal_to_ints (JArray [entity_v ''a'' (JArray [JFloat ''3.0''])])
     = JArray [entity_v ''a'' (JArray [JInt 3])]"
    by (simp add: entity_v_def endswith_def int_of_float_def nat_of_digits_def digit_val_def)
  have 2: "verify_json (scenario_spec []) (JArray [entity_v ''a'' (JArray [JInt 3])])
        (JArray [entity_v ''a'' (JArray [JInt 3])]) = Inr Passed"
    by (simp add: verify_json_def current_output_def get_pipe_entities_def entity_v_def
      filter_entity_def startswith_def is_path_blacklisted_def sorted_by_id_def)
  from verify_json_normalises_fetched [where ts = "scenario_spec []"
      and expected = "JArray [entity_v ''a'' (JArray [JInt 3])]"
      and resp = "JArray [entity_v ''a'' (JArray [JFloat ''3.0''])]"] 1 2
  show ?thesis by simp
qed

section \<open>Properties of the configuration comparison\<close>

lemma remote_pass_eq:
  "remote_pass rs ls = map NotFoundLocally (filter (\<lambda>f. f \<notin> set ls) rs)"
  by (induction rs) auto

lemma local_pass_sorted:
  "sorted ls \<Longrightarrow> local_pass lc rc ls rs = Inr ms \<Longrightarrow>
   sorted (map message_file ms)
   \<and> (\<forall>m \<in> set ms. \<not> is_remote_only m \<and> message_file m \<in> set ls)"
proof (induction ls arbitrary: ms)
  case Nil
  then show ?case by simp
next
  case (Cons l ls)
  from Cons.prems(1) have sl: "sorted ls" and le: "\<forall>y\<in>set ls. l \<le> y" by simp_all
  show ?case
  proof (cases "local_pass lc rc ls rs")
    case (Inl e)
    with Cons.prems(2) show ?thesis by (simp split: if_splits sum.splits)
  next
    case (Inr ms')
    from Cons.IH [OF sl Inr] have IH: "sorted (map message_file ms')"
      "\<forall>m \<in> set ms'. \<not> is_remote_only m \<and> message_file m \<in> set ls" by simp_all
    from Cons.prems(2) Inr
    have "ms = ms' \<or> ms = NotFoundInSesam l # ms' \<or> ms = Differs l # ms'"
      by (simp split: if_splits sum.splits; blast)
    with IH le show ?thesis by auto
  qed
qed

lemma local_pass_missing:
  "local_pass lc rc ls rs = Inr ms \<Longrightarrow>
   NotFoundInSesam f \<in> set ms \<longleftrightarrow> f \<in> set ls \<and> f \<notin> set rs"
proof (induction ls arbitrary: ms)
  case Nil
  then show ?case by simp
next
  case (Cons l ls)
  show ?case
  proof (cases "local_pass lc rc ls rs")
    case (Inl e)
    with Cons.prems show ?thesis by (simp split: if_splits sum.splits)
  next
    case (Inr ms')
    from Cons.IH [OF Inr]
    have IH: "NotFoundInSesam f \<in> set ms' \<longleftrightarrow> f \<in> set ls \<and> f \<notin> set rs" .
    show ?thesis
    proof (cases "l \<in> set rs")
      case True
      with Cons.prems Inr have "ms = ms' \<or> ms = Differs l # ms'"
        by (simp split: if_splits sum.splits; blast)
      then have "NotFoundInSesam f \<in> set ms \<longleftrightarrow> NotFoundInSesam f \<in> set ms'" by auto
      with IH True show ?thesis by auto
    next
      case False
      with Cons.prems Inr have "ms = NotFoundInSesam l # ms'" by simp
      then have "NotFoundInSesam f \<in> set ms \<longleftrightarrow> f = l \<or> NotFoundInSesam f \<in> set ms'" by auto
      with IH False show ?thesis by auto
    qed
  qed
qed

text \<open>
  C9, as the code has it. For the local files \<^verbatim>\<open>a.json\<close>, \<^verbatim>\<open>b.json\<close> and the remote files
  \<^verbatim>\<open>b.json\<close>, \<^verbatim>\<open>c.json\<close> the two divergences are reported and the configurations are not
  in sync, but \<^verbatim>\<open>c.json\<close> is reported before \<^verbatim>\<open>a.json\<close>: the list is not in the order of
  the file names.
\<close>

theorem status_order_counterexample:
  "status local_zip remote_zip =
     Inr ([NotFoundLocally ''c.json'', NotFoundInSesam ''a.json''], True)
   \<and> \<not> sorted (map message_file [NotFoundLocally ''c.json'', NotFoundInSesam ''a.json''])"
proof -
  have r: "sort (namelist remote_zip) = [''b.json'', ''c.json'']"
    by (simp add: namelist_def remote_zip_def)
  have l: "sort (namelist local_zip) = [''a.json'', ''b.json'']"
    by (simp add: namelist_def local_zip_def)
  have "read_text local_zip ''b.json'' = Inr ''[1]''" "read_text remote_zip ''b.json'' = Inr ''[1]''"
    by (simp_all add: read_text_def local_zip_def remote_zip_def)
  then show ?thesis by (simp add: status_def r l)
qed

text \<open>
  C9, amended. The comparison reports the files found only on the node, in the order of
  their names, and after them the files found only locally and the files whose content
  differs, in the order of their names; the files reported as missing are exactly those
  of the one collection that are not in the other, and the configurations are in sync
  exactly when nothing is reported. For the scenario that is \<^verbatim>\<open>c.json\<close> (not found
  locally), then \<^verbatim>\<open>a.json\<close> (not found on the node), and not in sync.
\<close>

theorem status_report_order:
  assumes "status local_config remote_config = Inr (report, diff_found)"
  shows "report = filter is_remote_only report @ filter (\<lambda>m. \<not> is_remote_only m) report
       \<and> sorted (map message_file (filter is_remote_only report))
       \<and> sorted (map message_file (filter (\<lambda>m. \<not> is_remote_only m) report))
       \<and> {f. NotFoundLocally f \<in> set report} = set (namelist remote_config) - set (namelist local_config)
       \<and> {f. NotFoundInSesam f \<in> set report} = set (namelist local_config) - set (namelist remote_config)
       \<and> diff_found = (report \<noteq> [])"
proof -
  let ?rs = "sort (namelist remote_config)" and ?ls = "sort (namelist local_config)"
  from assms obtain ms where lp: "local_pass local_config remote_config ?ls ?rs = Inr ms"
    and rep: "report = remote_pass ?rs ?ls @ ms" and df: "diff_found = (report \<noteq> [])"
    by (auto simp: status_def Let_def split: sum.splits)
  from local_pass_sorted [OF _ lp] have s2: "sorted (map message_file ms)"
    and n2: "\<forall>m \<in> set ms. \<not> is_remote_only m" by simp_all
  have f1: "filter is_remote_only (remote_pass ?rs ?ls) = remote_pass ?rs ?ls"
    and f1n: "filter (\<lambda>m. \<not> is_remote_only m) (remote_pass ?rs ?ls) = []"
    by (simp_all add: remote_pass_eq filter_map comp_def)
  from n2 have f2: "filter is_remote_only ms = []"
    and f2n: "filter (\<lambda>m. \<not> is_remote_only m) ms = ms"
    by (simp_all add: filter_empty_conv filter_id_conv)
  have "sorted (filter (\<lambda>f. f \<notin> set ?ls) ?rs)" by (rule sorted_wrt_filter) simp
  then have s1: "sorted (map message_file (remote_pass ?rs ?ls))"
    by (simp add: remote_pass_eq comp_def)
  from n2 have "{f. NotFoundLocally f \<in> set ms} = {}" by force
  then have m1: "{f. NotFoundLocally f \<in> set report} = set (namelist remote_config) - set (namelist local_config)"
    unfolding rep by (auto simp: remote_pass_eq)
  have "\<And>f. NotFoundInSesam f \<notin> set (remote_pass ?rs ?ls)"
    by (auto simp: remote_pass_eq)
  with local_pass_missing [OF lp]
  have m2: "{f. NotFoundInSesam f \<in> set report} = set (namelist local_config) - set (namelist remote_config)"
    unfolding rep by auto
  from s1 s2 m1 m2 df show ?thesis
    unfolding rep by (simp add: f1 f1n f2 f2n)
qed

theorem status_report_order_witness:
  "status local_zip remote_zip =
     Inr ([NotFoundLocally ''c.json'', NotFoundInSesam ''a.json''], True)
   \<and> sorted (map message_file (filter is_remote_only
        [NotFoundLocally ''c.json'', NotFoundInSesam ''a.json'']))
   \<and> sorted (map message_file (filter (\<lambda>m. \<not> is_remote_only m)
        [NotFoundLocally ''c.json'', NotFoundInSesam ''a.json'']))
   \<and> {f. NotFoundLocally f \<in> set [NotFoundLocally ''c.json'', NotFoundInSesam ''a.json'']}
       = set (namelist remote_zip) - set (namelist local_zip)
   \<and> {f. NotFoundInSesam f \<in> set [NotFoundLocally ''c.json'', NotFoundInSesam ''a.json'']}
       = set (namelist local_zip) - set (namelist remote_zip)"
proof -
  have r: "sort (namelist remote_zip) = [''b.json'', ''c.json'']"
    by (simp add: namelist_def remote_zip_def)
  have l: "sort (namelist local_zip) = [''a.json'', ''b.json'']"
    by (simp add: namelist_def local_zip_def)
  have "read_text local_zip ''b.json'' = Inr ''[1]''" "read_text remote_zip ''b.json'' = Inr ''[1]''"
    by (simp_all add: read_text_def local_zip_def remote_zip_def)
  then have 1: "status local_zip remote_zip =
     Inr ([NotFoundLocally ''c.json'', NotFoundInSesam ''a.json''], True)"
    by (simp add: status_def r l)
  from status_report_order [OF 1] 1 show ?thesis by simp
qed

section \<open>Properties of loading the test specifications\<close>

text \<open>
  C8, evaluated. The spec file \<^verbatim>\<open>expected/foo.test.json\<close> holds \<^verbatim>\<open>{"ignore": true}\<close> and the
  baseline \<^verbatim>\<open>expected/foo.json\<close> exists. The derived file name is \<^verbatim>\<open>expected/foo.json\<close>, the
  loader looks for \<^verbatim>\<open>expected/expected/foo.json\<close>, and so in update mode the baseline
  stays and in verify mode no warning is logged. With the entry \<^verbatim>\<open>"file": "foo.json"\<close>
  the test finds the baseline, but update mode removes \<^verbatim>\<open>foo.json\<close> in the working
  directory, which raises, and verify mode warns.
\<close>

theorem ignored_baseline_not_deleted:
  "outcome_of_load (load_test_specs
      [(''expected/foo.test.json'', JObject [(''ignore'', JBool True)])]
      baseline_files [''foo''] True) = Inr (baseline_files, [])
   \<and> outcome_of_load (load_test_specs
      [(''expected/foo.test.json'', JObject [(''ignore'', JBool True)])]
      baseline_files [''foo''] False) = Inr (baseline_files, [])
   \<and> outcome_of_load (load_test_specs
      [(''expected/foo.test.json'', JObject [(''ignore'', JBool True), (''file'', JString ''foo.json'')])]
      baseline_files [''foo''] True) = Inl (FileNotFoundError ''foo.json'')
   \<and> outcome_of_load (load_test_specs
      [(''expected/foo.test.json'', JObject [(''ignore'', JBool True), (''file'', JString ''foo.json'')])]
      baseline_files [''foo''] False)
       = Inr (baseline_files, [IgnoredButExists ''foo'' ''expected/foo.test.json''])"
  by (simp add: outcome_of_load_def load_test_specs_def load_spec_def TestSpec_init_def Let_def
      pipe_def ignore_def file_prop_def map_add_def last_segment_def append_spec_def
      baseline_files_def)

section \<open>Properties of the scheduler run loop\<close>

lemma poll_scheduler_continue:
  assumes "get_scheduler_status n = (Inr state, n')"
    and "state \<noteq> JString ''success''" and "state \<noteq> JString ''failed''"
  shows "poll_scheduler n = poll_scheduler n'"
  by (subst poll_scheduler.simps) (simp add: assms)

lemma poll_scheduler_failed:
  "get_scheduler_status n = (Inr (JString ''failed''), n') \<Longrightarrow>
   poll_scheduler n = Some (Inr Failed, n')"
  by (subst poll_scheduler.simps) simp


lemma poll_scheduler_raises:
  "get_scheduler_status n = (Inl e, n') \<Longrightarrow> poll_scheduler n = Some (Inl e, n')"
  by (subst poll_scheduler.simps) simp

lemma never_finishes_step:
  assumes "never_finishes n"
  shows "\<exists>state. get_scheduler_status n = (Inr state, n\<lparr>proxy_status := stl (proxy_status n)\<rparr>)
           \<and> state \<noteq> JString ''success'' \<and> state \<noteq> JString ''failed''"
    and "never_finishes (n\<lparr>proxy_status := stl (proxy_status n)\<rparr>)"
proof -
  from assms have p: "present n" and a: "\<And>i. still_running (proxy_status n !! i)"
    by (simp_all add: never_finishes_def)
  from a [of 0] have "still_running (shd (proxy_status n))" by simp
  with p show "\<exists>state. get_scheduler_status n = (Inr state, n\<lparr>proxy_status := stl (proxy_status n)\<rparr>)
           \<and> state \<noteq> JString ''success'' \<and> state \<noteq> JString ''failed''"
    by (auto simp: still_running_def get_scheduler_status_def split: sum.splits)
  from a have "\<And>i. still_running (stl (proxy_status n) !! i)"
    using a [of "Suc i" for i] by simp
  with p show "never_finishes (n\<lparr>proxy_status := stl (proxy_status n)\<rparr>)"
    by (simp add: never_finishes_def)
qed

lemma poll_scheduler_diverges:
  assumes "never_finishes n"
  shows "poll_scheduler n = None"
proof (cases "poll_scheduler n")
  case None
  then show ?thesis .
next
  case (Some y)
  have "\<not> never_finishes n"
  proof (rule poll_scheduler.raw_induct [where P = "\<lambda>x y. \<not> never_finishes x" and n = n and y = y], goal_cases)
    case (1 poll m z)
    show ?case
    proof
      assume nf: "never_finishes m"
      from never_finishes_step(1) [OF nf] obtain state where
        g: "get_scheduler_status m = (Inr state, m\<lparr>proxy_status := stl (proxy_status m)\<rparr>)"
        and s: "state \<noteq> JString ''success''" "state \<noteq> JString ''failed''" by blast
      from 1(2) g s have "poll (m\<lparr>proxy_status := stl (proxy_status m)\<rparr>) = Some z" by simp
      from 1(1) [OF this] never_finishes_step(2) [OF nf] show False by simp
    qed
  next
    case 2
    show ?case by (rule Some)
  qed
  with assms show ?thesis by simp
qed

lemma verify_posted_bounded:
  "\<exists>k \<le> nat \<lceil>timeout / 5\<rceil>.
     snd (verify_posted timeout n) = n\<lparr>posted_config_matches := sdrop k (posted_config_matches n)\<rparr>"
proof (induction timeout n rule: verify_posted.induct)
  case (1 timeout n)
  show ?case
  proof (cases "timeout > 0")
    case False
    then have "verify_posted timeout n = (False, n)" by (subst verify_posted.simps) simp
    then show ?thesis by (intro exI [of _ 0]) simp
  next
    case True
    then have pos: "0 < \<lceil>timeout / 5\<rceil>" by simp
    have dec: "\<lceil>(timeout - 5) / 5\<rceil> = \<lceil>timeout / 5\<rceil> - 1" by (simp add: diff_divide_distrib)
    show ?thesis
    proof (cases "shd (posted_config_matches n)")
      case hit: True
      with True have "verify_posted timeout n
          = (True, n\<lparr>posted_config_matches := stl (posted_config_matches n)\<rparr>)"
        by (subst verify_posted.simps) simp
      moreover from pos have "1 \<le> nat \<lceil>timeout / 5\<rceil>" by linarith
      ultimately show ?thesis by (intro exI [of _ 1]) (simp del: zero_less_ceiling)
    next
      case miss: False
      let ?n' = "n\<lparr>posted_config_matches := stl (posted_config_matches n)\<rparr>"
      from True miss have eq: "verify_posted timeout n = verify_posted (timeout - 5) ?n'"
        by (subst verify_posted.simps) simp
      from 1 [OF True miss] obtain k where k: "k \<le> nat \<lceil>(timeout - 5) / 5\<rceil>"
        and s: "snd (verify_posted (timeout - 5) ?n')
          = ?n'\<lparr>posted_config_matches := sdrop k (posted_config_matches ?n')\<rparr>" by blast
      from k pos dec have "Suc k \<le> nat \<lceil>timeout / 5\<rceil>" by linarith
      moreover from s have "snd (verify_posted timeout n)
          = n\<lparr>posted_config_matches := sdrop (Suc k) (posted_config_matches n)\<rparr>"
        by (simp add: eq)
      ultimately show ?thesis by blast
    qed
  qed
qed

lemma verify_posted_exhausted:
  "(\<forall>i < nat \<lceil>timeout / 5\<rceil>. \<not> posted_config_matches n !! i) \<Longrightarrow>
   verify_posted timeout n
     = (False, n\<lparr>posted_config_matches := sdrop (nat \<lceil>timeout / 5\<rceil>) (posted_config_matches n)\<rparr>)"
proof (induction timeout n rule: verify_posted.induct)
  case (1 timeout n)
  show ?case
  proof (cases "timeout > 0")
    case False
    then have "verify_posted timeout n = (False, n)" by (subst verify_posted.simps) simp
    moreover from False have "\<lceil>timeout / 5\<rceil> \<le> 0" by (simp add: ceiling_le_zero divide_le_0_iff)
    ultimately show ?thesis by simp
  next
    case True
    then have pos: "0 < \<lceil>timeout / 5\<rceil>" by simp
    have dec: "\<lceil>(timeout - 5) / 5\<rceil> = \<lceil>timeout / 5\<rceil> - 1" by (simp add: diff_divide_distrib)
    from pos obtain j where j: "nat \<lceil>timeout / 5\<rceil> = Suc j" by (cases "nat \<lceil>timeout / 5\<rceil>") auto
    with dec have j': "nat \<lceil>(timeout - 5) / 5\<rceil> = j" by simp
    let ?n' = "n\<lparr>posted_config_matches := stl (posted_config_matches n)\<rparr>"
    from 1(2) j have miss: "\<not> shd (posted_config_matches n)"
      and rest: "\<forall>i < j. \<not> posted_config_matches ?n' !! i"
      by (force, auto)
    from True miss have eq: "verify_posted timeout n = verify_posted (timeout - 5) ?n'"
      by (subst verify_posted.simps) simp
    from rest j' have "\<forall>i < nat \<lceil>(timeout - 5) / 5\<rceil>. \<not> posted_config_matches ?n' !! i" by simp
    from 1(1) [OF True miss this] show ?thesis by (simp add: eq j j')
  qed
qed

lemma wait_running_bounded:
  "\<exists>k \<le> nat \<lceil>timeout / 5\<rceil>.
     snd (wait_running timeout n) = n\<lparr>status_running := sdrop k (status_running n)\<rparr>"
proof (induction timeout n rule: wait_running.induct)
  case (1 timeout n)
  show ?case
  proof (cases "timeout > 0")
    case False
    then have "wait_running timeout n = (False, n)" by (subst wait_running.simps) simp
    then show ?thesis by (intro exI [of _ 0]) simp
  next
    case True
    then have pos: "0 < \<lceil>timeout / 5\<rceil>" by simp
    have dec: "\<lceil>(timeout - 5) / 5\<rceil> = \<lceil>timeout / 5\<rceil> - 1" by (simp add: diff_divide_distrib)
    show ?thesis
    proof (cases "shd (status_running n)")
      case hit: True
      with True have "wait_running timeout n
          = (True, n\<lparr>status_running := stl (status_running n)\<rparr>)"
        by (subst wait_running.simps) simp
      moreover from pos have "1 \<le> nat \<lceil>timeout / 5\<rceil>" by linarith
      ultimately show ?thesis by (intro exI [of _ 1]) (simp del: zero_less_ceiling)
    next
      case miss: False
      let ?n' = "n\<lparr>status_running := stl (status_running n)\<rparr>"
      from True miss have eq: "wait_running timeout n = wait_running (timeout - 5) ?n'"
        by (subst wait_running.simps) simp
      from 1 [OF True miss] obtain k where k: "k \<le> nat \<lceil>(timeout - 5) / 5\<rceil>"
        and s: "snd (wait_running (timeout - 5) ?n')
          = ?n'\<lparr>status_running := sdrop k (status_running ?n')\<rparr>" by blast
      from k pos dec have "Suc k \<le> nat \<lceil>timeout / 5\<rceil>" by linarith
      moreover from s have "snd (wait_running timeout n)
          = n\<lparr>status_running := sdrop (Suc k) (status_running n)\<rparr>"
        by (simp add: eq)
      ultimately show ?thesis by blast
    qed
  qed
qed

lemma wait_running_exhausted:
  "(\<forall>i < nat \<lceil>timeout / 5\<rceil>. \<not> status_running n !! i) \<Longrightarrow>
   wait_running timeout n
     = (False, n\<lparr>status_running := sdrop (nat \<lceil>timeout / 5\<rceil>) (status_running n)\<rparr>)"
proof (induction timeout n rule: wait_running.induct)
  case (1 timeout n)
  show ?case
  proof (cases "timeout > 0")
    case False
    then have "wait_running timeout n = (False, n)" by (subst wait_running.simps) simp
    moreover from False have "\<lceil>timeout / 5\<rceil> \<le> 0" by (simp add: ceiling_le_zero divide_le_0_iff)
    ultimately show ?thesis by simp
  next
    case True
    then have pos: "0 < \<lceil>timeout / 5\<rceil>" by simp
    have dec: "\<lceil>(timeout - 5) / 5\<rceil> = \<lceil>timeout / 5\<rceil> - 1" by (simp add: diff_divide_distrib)
    from pos obtain j where j: "nat \<lceil>timeout / 5\<rceil> = Suc j" by (cases "nat \<lceil>timeout / 5\<rceil>") auto
    with dec have j': "nat \<lceil>(timeout - 5) / 5\<rceil> = j" by simp
    let ?n' = "n\<lparr>status_running := stl (status_running n)\<rparr>"
    from 1(2) j have miss: "\<not> shd (status_running n)"
      and rest: "\<forall>i < j. \<not> status_running ?n' !! i"
      by (force, auto)
    from True miss have eq: "wait_running timeout n = wait_running (timeout - 5) ?n'"
      by (subst wait_running.simps) simp
    from rest j' have "\<forall>i < nat \<lceil>(timeout - 5) / 5\<rceil>. \<not> status_running ?n' !! i" by simp
    from 1(1) [OF True miss this] show ?thesis by (simp add: eq j j')
  qed
qed

text \<open>
  The loop that waits for the status \<^verbatim>\<open>init\<close> tests \<^verbatim>\<open>sleep_interval\<close>, which does not
  change, and not \<^verbatim>\<open>timeout\<close>: with a positive poll frequency it ends only when the agent
  reports \<^verbatim>\<open>init\<close>.
\<close>

lemma await_init_diverges:
  assumes "0 < sleep_interval" and "never_init n"
  shows "await_init sleep_interval timeout n = None"
proof (cases "await_init sleep_interval timeout n")
  case None
  then show ?thesis .
next
  case (Some y)
  have "\<not> (0 < sleep_interval \<and> never_init n)"
  proof (rule await_init.raw_induct [where P = "\<lambda>s t m y. \<not> (0 < s \<and> never_init m)"
        and sleep_interval = sleep_interval and timeout = timeout and n = n and y = y], goal_cases)
    case (1 await s t m z)
    show ?case
    proof
      assume a: "0 < s \<and> never_init m"
      then have ni: "\<And>i. scheduler_state (proxy_status m !! i) \<noteq> Inr (JString ''init'')"
        by (simp add: never_init_def)
      obtain r m' where g: "get_scheduler_status m = (r, m')" by (cases "get_scheduler_status m")
      from g have m': "m' = m \<or> m' = m\<lparr>proxy_status := stl (proxy_status m)\<rparr>"
        and r: "r \<noteq> Inr (JString ''init'')"
        using ni [of 0] by (auto simp: get_scheduler_status_def split: if_splits)
      from ni have "\<And>i. scheduler_state (stl (proxy_status m) !! i) \<noteq> Inr (JString ''init'')"
        using ni [of "Suc i" for i] by simp
      with m' a have inv: "0 < s \<and> never_init m'" by (auto simp: never_init_def)
      from 1(2) a g r have "await s (t - s) m' = Some z"
        by (cases r) auto
      from 1(1) [OF this] inv show False by simp
    qed
  next
    case 2
    show ?case by (rule Some)
  qed
  with assms show ?thesis by simp
qed

lemma prepared_node:
  "posted_config_matches (if present n then remove_system n else n) = posted_config_matches n"
  "status_running (if present n then remove_system n else n) = status_running n"
  by (simp_all add: remove_system_def)

lemma verification_exhausted:
  assumes "\<not> custom_scheduler a" and "\<forall>i < 60. \<not> posted_config_matches n !! i"
  shows "map_option fst (start_scheduler_try a timeout n)
           = Some (Inl (RuntimeError ''Failed to initialise scheduler''))"
proof -
  let ?n1 = "if present n then remove_system n else n"
  have c: "nat \<lceil>(300 :: rat) / 5\<rceil> = 60" by simp
  from assms(2) have "\<forall>i < nat \<lceil>(300 :: rat) / 5\<rceil>. \<not> posted_config_matches (?n1\<lparr>present := True\<rparr>) !! i"
    unfolding c by (simp add: prepared_node)
  from verify_posted_exhausted [OF this] have "\<not> fst (add_system ?n1)"
    by (simp add: add_system_def)
  with assms(1) show ?thesis by (simp add: start_scheduler_try_def Let_def)
qed

lemma readiness_exhausted:
  assumes "\<not> custom_scheduler a" and "shd (posted_config_matches n)"
    and "\<forall>i < nat \<lceil>timeout / 5\<rceil>. \<not> status_running n !! i"
  shows "map_option fst (start_scheduler_try a timeout n)
           = Some (Inl (RuntimeError ''Timed out waiting for scheduler to load''))"
proof -
  let ?n1 = "if present n then remove_system n else n"
  let ?n2 = "?n1\<lparr>present := True, posted_config_matches := stl (posted_config_matches n)\<rparr>"
  from assms(2) have add: "add_system ?n1 = (True, ?n2)"
    unfolding add_system_def by (subst verify_posted.simps) (simp add: prepared_node)
  from assms(3) have "\<forall>i < nat \<lceil>timeout / 5\<rceil>. \<not> status_running ?n2 !! i"
    by (simp add: prepared_node)
  from wait_running_exhausted [OF this]
  have "\<exists>n3. wait_for_microservice ?n2 timeout = (Inr False, n3)"
    by (simp add: wait_for_microservice_def)
  then obtain n3 where "wait_for_microservice ?n2 timeout = (Inr False, n3)" ..
  with assms(1) add show ?thesis by (simp add: start_scheduler_try_def Let_def)
qed

lemma start_try_fresh:
  "start_scheduler_try default_args 300 (fresh_node (state_reply ''init'' ## rs))
     = Some (Inr (), (fresh_node rs)\<lparr>present := True\<rparr>)"
proof -
  let ?n = "fresh_node (state_reply ''init'' ## rs)"
  let ?n2 = "?n\<lparr>present := True\<rparr>"
  have add: "add_system ?n = (True, ?n2)"
    unfolding add_system_def by (subst verify_posted.simps) (simp add: fresh_node_def)
  have wait: "wait_for_microservice ?n2 300 = (Inr True, ?n2)"
    unfolding wait_for_microservice_def by (subst wait_running.simps) (simp add: fresh_node_def)
  have st: "get_scheduler_status ?n2 = (Inr (JString ''init''), (fresh_node rs)\<lparr>present := True\<rparr>)"
    by (simp add: get_scheduler_status_def fresh_node_def state_reply_def)
  have init: "await_init 5 300 ?n2 = Some (300, (fresh_node rs)\<lparr>present := True\<rparr>)"
    by (subst await_init.simps) (simp add: st)
  have post: "post_start ((fresh_node rs)\<lparr>present := True\<rparr>) = Inr ()"
    by (simp add: post_start_def fresh_node_def)
  show ?thesis
    by (simp add: start_scheduler_try_def Let_def default_args_def add wait init post)
       (simp add: fresh_node_def)
qed

lemma start_fresh:
  "start_scheduler default_args (fresh_node (state_reply ''init'' ## rs))
     = Some (Inr None, (fresh_node rs)\<lparr>present := True\<rparr>)"
  by (simp add: start_scheduler_def start_try_fresh)

lemma status_of_state_reply:
  "get_scheduler_status ((fresh_node (state_reply s ## rs))\<lparr>present := True\<rparr>)
     = (Inr (JString s), (fresh_node rs)\<lparr>present := True\<rparr>)"
  by (simp add: get_scheduler_status_def fresh_node_def state_reply_def)

lemma status_of_constant_reply:
  "get_scheduler_status ((fresh_node (sconst (state_reply s)))\<lparr>present := True\<rparr>)
     = (Inr (JString s), (fresh_node (sconst (state_reply s)))\<lparr>present := True\<rparr>)"
  by (simp add: get_scheduler_status_def fresh_node_def state_reply_def)

text \<open>
  C6, as the code has it. After the status \<^verbatim>\<open>init\<close> the agent reports \<^verbatim>\<open>running\<close> for
  ever: the running phase polls without a timeout, and \<^verbatim>\<open>run\<close> does not return.
\<close>

theorem running_phase_counterexample:
  "run default_args (fresh_node (state_reply ''init'' ## sconst (state_reply ''running''))) = None"
proof -
  have "never_finishes ((fresh_node (sconst (state_reply ''running'')))\<lparr>present := True\<rparr>)"
    by (simp add: never_finishes_def fresh_node_def still_running_def state_reply_def)
  then have "poll_scheduler ((fresh_node (sconst (state_reply ''running'')))\<lparr>present := True\<rparr>) = None"
    by (rule poll_scheduler_diverges)
  then show ?thesis by (simp add: run_def start_fresh)
qed

text \<open>
  C6, amended. The poll that verifies the posted configuration of the agent and the
  poll that waits for the agent to run are bounded by a timeout that is decremented by
  the fixed interval of five seconds: whatever the node answers, each makes at most
  \<open>\<lceil>timeout / 5\<rceil>\<close> requests, and when none of them succeeds the start fails with a
  \<^verbatim>\<open>RuntimeError\<close>. The running phase has no timeout: while the agent reports neither
  \<^verbatim>\<open>success\<close> nor \<^verbatim>\<open>failed\<close> and no poll raises, it goes on polling.
\<close>

theorem poll_phases_bounds:
  "(\<exists>k \<le> nat \<lceil>timeout / 5\<rceil>.
      snd (verify_posted timeout n) = n\<lparr>posted_config_matches := sdrop k (posted_config_matches n)\<rparr>)
   \<and> (\<exists>k \<le> nat \<lceil>timeout / 5\<rceil>.
      snd (wait_running timeout n) = n\<lparr>status_running := sdrop k (status_running n)\<rparr>)
   \<and> (\<not> custom_scheduler a \<and> (\<forall>i < 60. \<not> posted_config_matches n !! i) \<longrightarrow>
        map_option fst (start_scheduler_try a timeout n)
          = Some (Inl (RuntimeError ''Failed to initialise scheduler'')))
   \<and> (\<not> custom_scheduler a \<and> shd (posted_config_matches n)
        \<and> (\<forall>i < nat \<lceil>timeout / 5\<rceil>. \<not> status_running n !! i) \<longrightarrow>
        map_option fst (start_scheduler_try a timeout n)
          = Some (Inl (RuntimeError ''Timed out waiting for scheduler to load'')))
   \<and> (never_finishes n \<longrightarrow> poll_scheduler n = None)"
  using verify_posted_bounded [of timeout n] wait_running_bounded [of timeout n]
    verification_exhausted [of a n timeout] readiness_exhausted [of a n timeout]
    poll_scheduler_diverges [of n]
  by blast

theorem poll_phases_bounds_witness:
  "map_option fst (start_scheduler_try default_args 10
      ((fresh_node (sconst (state_reply ''running'')))\<lparr>status_running := sconst False\<rparr>))
     = Some (Inl (RuntimeError ''Timed out waiting for scheduler to load''))
   \<and> map_option fst (start_scheduler_try default_args 10
      ((fresh_node (sconst (state_reply ''running'')))\<lparr>posted_config_matches := sconst False\<rparr>))
     = Some (Inl (RuntimeError ''Failed to initialise scheduler''))
   \<and> never_finishes ((fresh_node (sconst (state_reply ''running'')))\<lparr>present := True\<rparr>)
   \<and> poll_scheduler ((fresh_node (sconst (state_reply ''running'')))\<lparr>present := True\<rparr>) = None"
proof -
  let ?n = "(fresh_node (sconst (state_reply ''running'')))\<lparr>status_running := sconst False\<rparr>"
  let ?m = "(fresh_node (sconst (state_reply ''running'')))\<lparr>present := True\<rparr>"
  have 1: "\<not> custom_scheduler default_args \<and> shd (posted_config_matches ?n)
        \<and> (\<forall>i < nat \<lceil>(10 :: rat) / 5\<rceil>. \<not> status_running ?n !! i)"
    by (simp add: default_args_def fresh_node_def)
  have 2: "never_finishes ?m"
    by (simp add: never_finishes_def fresh_node_def still_running_def state_reply_def)
  from poll_phases_bounds [of 10 ?n default_args] 1
  have a: "map_option fst (start_scheduler_try default_args 10 ?n)
     = Some (Inl (RuntimeError ''Timed out waiting for scheduler to load''))" by blast
  from poll_phases_bounds [of 10 ?m default_args] 2
  have b: "poll_scheduler ?m = None" by blast
  let ?v = "(fresh_node (sconst (state_reply ''running'')))\<lparr>posted_config_matches := sconst False\<rparr>"
  have 3: "\<not> custom_scheduler default_args \<and> (\<forall>i < 60. \<not> posted_config_matches ?v !! i)"
    by (simp add: default_args_def fresh_node_def)
  from poll_phases_bounds [of 10 ?v default_args] 3
  have c: "map_option fst (start_scheduler_try default_args 10 ?v)
     = Some (Inl (RuntimeError ''Failed to initialise scheduler''))" by blast
  from a b c 2 show ?thesis by blast
qed

text \<open>
  C7, as the code has it. The agent reports \<^verbatim>\<open>init\<close>, \<^verbatim>\<open>running\<close> and then \<^verbatim>\<open>failed\<close>: \<^verbatim>\<open>run\<close>
  removes the scheduler system and returns normally; no exception leaves \<^verbatim>\<open>run\<close>.
\<close>

theorem failed_status_counterexample:
  "run_summary (run default_args
      (fresh_node (state_reply ''init'' ## state_reply ''running'' ## sconst (state_reply ''failed''))))
     = Some (Inr Failed, False, 1)"
proof -
  let ?f = "sconst (state_reply ''failed'')"
  let ?n = "fresh_node (state_reply ''init'' ## state_reply ''running'' ## ?f)"
  let ?n2 = "(fresh_node ?f)\<lparr>present := True\<rparr>"
  have s: "start_scheduler default_args ?n
      = Some (Inr None, (fresh_node (state_reply ''running'' ## ?f))\<lparr>present := True\<rparr>)"
    by (rule start_fresh)
  have 1: "poll_scheduler ((fresh_node (state_reply ''running'' ## ?f))\<lparr>present := True\<rparr>)
      = poll_scheduler ?n2"
    by (rule poll_scheduler_continue [OF status_of_state_reply]) simp_all
  from poll_scheduler_failed [OF status_of_constant_reply] 1
  have p: "poll_scheduler ((fresh_node (state_reply ''running'' ## ?f))\<lparr>present := True\<rparr>)
      = Some (Inr Failed, ?n2)" by simp
  have nr: "\<not> dont_remove_scheduler default_args" by (simp add: default_args_def)
  have r: "run default_args ?n = Some (Inr Failed, remove_system ?n2)"
    by (simp add: run_def s p nr)
  show ?thesis unfolding r run_summary_def by (simp add: remove_system_def fresh_node_def)
qed

lemma remove_system_absent: "\<not> present (remove_system n)"
  by (simp add: remove_system_def)

lemma poll_scheduler_steps:
  "present n \<Longrightarrow> \<forall>i < k. still_running (proxy_status n !! i) \<Longrightarrow>
   poll_scheduler n = poll_scheduler (n\<lparr>proxy_status := sdrop k (proxy_status n)\<rparr>)"
proof (induction k arbitrary: n)
  case 0
  then show ?case by simp
next
  case (Suc k)
  let ?n' = "n\<lparr>proxy_status := stl (proxy_status n)\<rparr>"
  from Suc.prems(2) have "still_running (proxy_status n !! 0)" by blast
  then have "still_running (shd (proxy_status n))" by simp
  with Suc.prems(1) obtain state where
    g: "get_scheduler_status n = (Inr state, ?n')"
    and s: "state \<noteq> JString ''success''" "state \<noteq> JString ''failed''"
    by (auto simp: still_running_def get_scheduler_status_def split: sum.splits)
  from g s have 1: "poll_scheduler n = poll_scheduler ?n'" by (rule poll_scheduler_continue)
  from Suc.prems(1) have p: "present ?n'" by simp
  from Suc.prems(2) have "\<forall>i < k. still_running (proxy_status n !! Suc i)" by auto
  then have r: "\<forall>i < k. still_running (proxy_status ?n' !! i)" by simp
  from Suc.IH [OF p r] 1 show ?case by simp
qed

lemma poll_scheduler_ends:
  assumes "present n" and "\<forall>i < k. still_running (proxy_status n !! i)"
  shows "scheduler_state (proxy_status n !! k) = Inl e \<Longrightarrow>
         poll_scheduler n = Some (Inl e, n\<lparr>proxy_status := sdrop (Suc k) (proxy_status n)\<rparr>)"
    and "scheduler_state (proxy_status n !! k) = Inr (JString ''failed'') \<Longrightarrow>
         poll_scheduler n = Some (Inr Failed, n\<lparr>proxy_status := sdrop (Suc k) (proxy_status n)\<rparr>)"
proof -
  let ?m = "n\<lparr>proxy_status := sdrop k (proxy_status n)\<rparr>"
  let ?m' = "n\<lparr>proxy_status := sdrop (Suc k) (proxy_status n)\<rparr>"
  from poll_scheduler_steps [OF assms] have 1: "poll_scheduler n = poll_scheduler ?m" .
  from assms(1) have g: "get_scheduler_status ?m = (scheduler_state (proxy_status n !! k), ?m')"
    by (simp add: get_scheduler_status_def)
  {
    assume "scheduler_state (proxy_status n !! k) = Inl e"
    with g have "get_scheduler_status ?m = (Inl e, ?m')" by simp
    from poll_scheduler_raises [OF this] 1
    show "poll_scheduler n = Some (Inl e, ?m')" by simp
  }
  {
    assume "scheduler_state (proxy_status n !! k) = Inr (JString ''failed'')"
    with g have "get_scheduler_status ?m = (Inr (JString ''failed''), ?m')" by simp
    from poll_scheduler_failed [OF this] 1
    show "poll_scheduler n = Some (Inr Failed, ?m')" by simp
  }
qed

lemma poll_scheduler_absent:
  "\<not> present n \<Longrightarrow>
   poll_scheduler n = Some (Inl (AssertionError ''Microservice system doesn't exist''), n)"
  by (rule poll_scheduler_raises) (simp add: get_scheduler_status_def)

lemma start_try_present:
  assumes "start_scheduler_try a timeout n = Some (Inr (), n1)"
  shows "present n1"
proof -
  from assms have "post_start n1 = Inr ()"
    by (auto simp: start_scheduler_try_def Let_def
        split: if_splits prod.splits sum.splits bool.splits option.splits)
  then show ?thesis by (auto simp: post_start_def split: if_splits)
qed

lemma verify_posted_hit:
  "j < nat \<lceil>timeout / 5\<rceil> \<Longrightarrow> posted_config_matches n !! j \<Longrightarrow> fst (verify_posted timeout n)"
proof (induction timeout n arbitrary: j rule: verify_posted.induct)
  case (1 timeout n)
  from 1(2) have "0 < \<lceil>timeout / 5\<rceil>" by linarith
  then have pos: "timeout > 0" by simp
  have dec: "\<lceil>(timeout - 5) / 5\<rceil> = \<lceil>timeout / 5\<rceil> - 1" by (simp add: diff_divide_distrib)
  show ?case
  proof (cases "shd (posted_config_matches n)")
    case True
    with pos show ?thesis by (subst verify_posted.simps) simp
  next
    case False
    let ?n' = "n\<lparr>posted_config_matches := stl (posted_config_matches n)\<rparr>"
    from pos False have eq: "verify_posted timeout n = verify_posted (timeout - 5) ?n'"
      by (subst verify_posted.simps) simp
    from False 1(3) obtain j' where j: "j = Suc j'" by (cases j) auto
    from 1(2) dec j have a: "j' < nat \<lceil>(timeout - 5) / 5\<rceil>" by linarith
    from 1(3) j have b: "posted_config_matches ?n' !! j'" by simp
    from 1(1) [OF pos False a b] eq show ?thesis by simp
  qed
qed

text \<open>
  The node a failed start leaves to the handler: the system is registered, and what the
  log request answers has not changed.
\<close>

lemma verification_failure_node:
  assumes "\<not> custom_scheduler a" and "\<forall>i < 60. \<not> posted_config_matches n !! i"
  shows "\<exists>n3. start_scheduler_try a timeout n
                = Some (Inl (RuntimeError ''Failed to initialise scheduler''), n3)
              \<and> present n3 \<and> log_request n3 = log_request n"
proof -
  let ?n1 = "if present n then remove_system n else n"
  let ?n2 = "?n1\<lparr>present := True\<rparr>"
  have c: "nat \<lceil>(300 :: rat) / 5\<rceil> = 60" by simp
  from assms(2) have "\<forall>i < nat \<lceil>(300 :: rat) / 5\<rceil>. \<not> posted_config_matches ?n2 !! i"
    unfolding c by (simp add: prepared_node)
  from verify_posted_exhausted [OF this]
  have add: "add_system ?n1
      = (False, ?n2\<lparr>posted_config_matches := sdrop 60 (posted_config_matches ?n2)\<rparr>)"
    by (simp add: add_system_def)
  have "log_request ?n1 = log_request n" by (simp add: remove_system_def)
  with assms(1) add show ?thesis by (simp add: start_scheduler_try_def Let_def)
qed

lemma readiness_failure_node:
  assumes "\<not> custom_scheduler a"
    and "j < 60" and "posted_config_matches n !! j"
    and "\<forall>i < nat \<lceil>timeout / 5\<rceil>. \<not> status_running n !! i"
  shows "\<exists>n3. start_scheduler_try a timeout n
                = Some (Inl (RuntimeError ''Timed out waiting for scheduler to load''), n3)
              \<and> present n3 \<and> log_request n3 = log_request n"
proof -
  let ?n1 = "if present n then remove_system n else n"
  let ?n2 = "?n1\<lparr>present := True\<rparr>"
  have c: "nat \<lceil>(300 :: rat) / 5\<rceil> = 60" by simp
  from assms(2) have j: "j < nat \<lceil>(300 :: rat) / 5\<rceil>" unfolding c .
  from assms(3) have "posted_config_matches ?n2 !! j" by (simp add: prepared_node)
  from verify_posted_hit [OF j this] have ok: "fst (add_system ?n1)" by (simp add: add_system_def)
  from verify_posted_bounded [of 300 ?n2] obtain k where
    "snd (add_system ?n1) = ?n2\<lparr>posted_config_matches := sdrop k (posted_config_matches ?n2)\<rparr>"
    by (auto simp: add_system_def)
  with ok have add: "add_system ?n1
      = (True, ?n2\<lparr>posted_config_matches := sdrop k (posted_config_matches ?n2)\<rparr>)"
    by (cases "add_system ?n1") simp
  let ?n3 = "?n2\<lparr>posted_config_matches := sdrop k (posted_config_matches ?n2)\<rparr>"
  from assms(4) have "\<forall>i < nat \<lceil>timeout / 5\<rceil>. \<not> status_running ?n3 !! i"
    by (simp add: prepared_node)
  from wait_running_exhausted [OF this]
  have wait: "wait_for_microservice ?n3 timeout
      = (Inr False, ?n3\<lparr>status_running := sdrop (nat \<lceil>timeout / 5\<rceil>) (status_running ?n3)\<rparr>)"
    by (simp add: wait_for_microservice_def)
  have "log_request ?n1 = log_request n" by (simp add: remove_system_def)
  with assms(1) add wait show ?thesis by (simp add: start_scheduler_try_def Let_def)
qed

text \<open>
  What the handler of \<^verbatim>\<open>start_scheduler\<close> makes of a failed start when its log request
  succeeds: the exception is swallowed, the system is left on the node exactly when
  \<^verbatim>\<open>dont_remove_scheduler\<close> is set, and \<^verbatim>\<open>run\<close> goes on to poll; the first poll of a removed
  system raises, and this is the exception that leaves \<^verbatim>\<open>run\<close>.
\<close>

lemma handled_start_failure:
  assumes "start_scheduler_try a 300 n = Some (Inl e, n3)"
    and "present n3" and "log_request n3 = None"
  shows "ending (start_scheduler a n) = Some (Inr (Some e), dont_remove_scheduler a)"
    and "\<not> dont_remove_scheduler a \<Longrightarrow>
         ending (run a n) = Some (Inl (AssertionError ''Microservice system doesn't exist''), False)"
proof -
  from assms show "ending (start_scheduler a n) = Some (Inr (Some e), dont_remove_scheduler a)"
    by (simp add: start_scheduler_def ending_def remove_system_absent)
  assume nr: "\<not> dont_remove_scheduler a"
  with assms have s: "start_scheduler a n = Some (Inr (Some e), remove_system n3)"
    by (simp add: start_scheduler_def)
  have p: "poll_scheduler (remove_system n3)
      = Some (Inl (AssertionError ''Microservice system doesn't exist''), remove_system n3)"
    by (rule poll_scheduler_absent) (rule remove_system_absent)
  from s p nr show "ending (run a n)
      = Some (Inl (AssertionError ''Microservice system doesn't exist''), False)"
    by (simp add: run_def ending_def remove_system_absent)
qed

text \<open>
  When the log request of the handler raises, that exception leaves \<^verbatim>\<open>start_scheduler\<close>
  and, \<^verbatim>\<open>start_scheduler\<close> being called before the \<^verbatim>\<open>try\<close> of \<^verbatim>\<open>run\<close>, leaves \<^verbatim>\<open>run\<close> as well:
  nothing is removed, whatever \<^verbatim>\<open>dont_remove_scheduler\<close> is.
\<close>

lemma log_request_failure_leaves_system:
  assumes "\<not> custom_scheduler a" and "\<forall>i < 60. \<not> posted_config_matches n !! i"
    and "log_request n = Some e2"
  shows "ending (run a n) = Some (Inl e2, True)"
proof -
  from verification_failure_node [OF assms(1,2), of 300] obtain n3 where
    t: "start_scheduler_try a 300 n = Some (Inl (RuntimeError ''Failed to initialise scheduler''), n3)"
    and p: "present n3" and l: "log_request n3 = log_request n" by blast
  from t l assms(3) have "start_scheduler a n = Some (Inl e2, n3)"
    by (simp add: start_scheduler_def)
  with p show ?thesis by (simp add: run_def ending_def)
qed

lemma run_after_start:
  assumes "start_scheduler_try a 300 n = Some (Inr (), n1)"
    and "poll_scheduler n1 = Some (r, n2)" and "present n2"
  shows "ending (run a n) = Some (r, dont_remove_scheduler a)"
  using assms by (simp add: run_def start_scheduler_def ending_def remove_system_absent)

text \<open>
  C7, amended. Once the agent is started, the running phase ends on the first reply
  that is an exception or the status \<^verbatim>\<open>failed\<close>, and either way the agent is left on the
  node exactly when retention was requested: the exception of the poll leaves \<^verbatim>\<open>run\<close>
  after the removal, and after the status \<^verbatim>\<open>failed\<close> \<^verbatim>\<open>run\<close> returns normally. A start
  that fails because no verification poll finds the posted configuration, or because
  no readiness poll finds the agent running, is handled in \<^verbatim>\<open>start_scheduler\<close>: when the
  request for the scheduler log in the handler succeeds, the exception is swallowed and
  the agent is left on the node exactly when retention was requested; \<^verbatim>\<open>run\<close> then goes
  on to poll the agent, and when the agent has been removed that poll raises and its
  exception leaves \<^verbatim>\<open>run\<close>.
\<close>

theorem run_ends_with_teardown:
  "(start_scheduler_try a 300 n = Some (Inr (), n1)
      \<and> (\<forall>i < k. still_running (proxy_status n1 !! i))
      \<and> scheduler_state (proxy_status n1 !! k) = Inl e \<longrightarrow>
        ending (run a n) = Some (Inl e, dont_remove_scheduler a))
   \<and> (start_scheduler_try a 300 n = Some (Inr (), n1)
      \<and> (\<forall>i < k. still_running (proxy_status n1 !! i))
      \<and> scheduler_state (proxy_status n1 !! k) = Inr (JString ''failed'') \<longrightarrow>
        ending (run a n) = Some (Inr Failed, dont_remove_scheduler a))
   \<and> (\<not> custom_scheduler a \<and> (\<forall>i < 60. \<not> posted_config_matches n !! i)
      \<and> log_request n = None \<longrightarrow>
        ending (start_scheduler a n)
          = Some (Inr (Some (RuntimeError ''Failed to initialise scheduler'')), dont_remove_scheduler a)
        \<and> (\<not> dont_remove_scheduler a \<longrightarrow>
             ending (run a n)
               = Some (Inl (AssertionError ''Microservice system doesn't exist''), False)))
   \<and> (\<not> custom_scheduler a \<and> j < 60 \<and> posted_config_matches n !! j
      \<and> (\<forall>i < 60. \<not> status_running n !! i) \<and> log_request n = None \<longrightarrow>
        ending (start_scheduler a n)
          = Some (Inr (Some (RuntimeError ''Timed out waiting for scheduler to load'')),
                  dont_remove_scheduler a)
        \<and> (\<not> dont_remove_scheduler a \<longrightarrow>
             ending (run a n)
               = Some (Inl (AssertionError ''Microservice system doesn't exist''), False)))"
proof (intro conjI impI)
  assume h: "start_scheduler_try a 300 n = Some (Inr (), n1)
      \<and> (\<forall>i < k. still_running (proxy_status n1 !! i))
      \<and> scheduler_state (proxy_status n1 !! k) = Inl e"
  then have t: "start_scheduler_try a 300 n = Some (Inr (), n1)"
    and s: "\<forall>i < k. still_running (proxy_status n1 !! i)"
    and e: "scheduler_state (proxy_status n1 !! k) = Inl e" by simp_all
  from start_try_present [OF t] have p: "present n1" .
  from poll_scheduler_ends(1) [OF p s e]
  have "poll_scheduler n1 = Some (Inl e, n1\<lparr>proxy_status := sdrop (Suc k) (proxy_status n1)\<rparr>)" .
  from run_after_start [OF t this] p
  show "ending (run a n) = Some (Inl e, dont_remove_scheduler a)" by simp
next
  assume h: "start_scheduler_try a 300 n = Some (Inr (), n1)
      \<and> (\<forall>i < k. still_running (proxy_status n1 !! i))
      \<and> scheduler_state (proxy_status n1 !! k) = Inr (JString ''failed'')"
  then have t: "start_scheduler_try a 300 n = Some (Inr (), n1)"
    and s: "\<forall>i < k. still_running (proxy_status n1 !! i)"
    and e: "scheduler_state (proxy_status n1 !! k) = Inr (JString ''failed'')" by simp_all
  from start_try_present [OF t] have p: "present n1" .
  from poll_scheduler_ends(2) [OF p s e]
  have "poll_scheduler n1 = Some (Inr Failed, n1\<lparr>proxy_status := sdrop (Suc k) (proxy_status n1)\<rparr>)" .
  from run_after_start [OF t this] p
  show "ending (run a n) = Some (Inr Failed, dont_remove_scheduler a)" by simp
next
  assume h: "\<not> custom_scheduler a \<and> (\<forall>i < 60. \<not> posted_config_matches n !! i)
      \<and> log_request n = None"
  then have c: "\<not> custom_scheduler a" and v: "\<forall>i < 60. \<not> posted_config_matches n !! i"
    and l: "log_request n = None" by simp_all
  from verification_failure_node [OF c v, of 300] l obtain n3 where
    t: "start_scheduler_try a 300 n = Some (Inl (RuntimeError ''Failed to initialise scheduler''), n3)"
    and p: "present n3" and l3: "log_request n3 = None" by auto
  from handled_start_failure(1) [OF t p l3]
  show "ending (start_scheduler a n)
          = Some (Inr (Some (RuntimeError ''Failed to initialise scheduler'')), dont_remove_scheduler a)" .
  assume "\<not> dont_remove_scheduler a"
  from handled_start_failure(2) [OF t p l3 this]
  show "ending (run a n)
      = Some (Inl (AssertionError ''Microservice system doesn't exist''), False)" .
next
  assume h: "\<not> custom_scheduler a \<and> j < 60 \<and> posted_config_matches n !! j
      \<and> (\<forall>i < 60. \<not> status_running n !! i) \<and> log_request n = None"
  then have c: "\<not> custom_scheduler a" and j: "j < 60" "posted_config_matches n !! j"
    and l: "log_request n = None" by simp_all
  have "nat \<lceil>(300 :: rat) / 5\<rceil> = 60" by simp
  with h have w: "\<forall>i < nat \<lceil>(300 :: rat) / 5\<rceil>. \<not> status_running n !! i" by simp
  from readiness_failure_node [OF c j w] l obtain n3 where
    t: "start_scheduler_try a 300 n
          = Some (Inl (RuntimeError ''Timed out waiting for scheduler to load''), n3)"
    and p: "present n3" and l3: "log_request n3 = None" by auto
  from handled_start_failure(1) [OF t p l3]
  show "ending (start_scheduler a n)
          = Some (Inr (Some (RuntimeError ''Timed out waiting for scheduler to load'')),
                  dont_remove_scheduler a)" .
  assume "\<not> dont_remove_scheduler a"
  from handled_start_failure(2) [OF t p l3 this]
  show "ending (run a n)
      = Some (Inl (AssertionError ''Microservice system doesn't exist''), False)" .
qed

theorem run_ends_with_teardown_witness:
  "ending (run default_args
      (fresh_node (state_reply ''init'' ## state_reply ''running'' ## sconst (Inl HTTPError))))
     = Some (Inl HTTPError, False)
   \<and> ending (run default_args
      (fresh_node (state_reply ''init'' ## state_reply ''running'' ## sconst (state_reply ''failed''))))
     = Some (Inr Failed, False)
   \<and> ending (run default_args
        ((fresh_node (sconst (state_reply ''init'')))\<lparr>posted_config_matches := sconst False\<rparr>))
     = Some (Inl (AssertionError ''Microservice system doesn't exist''), False)
   \<and> ending (run default_args
        ((fresh_node (sconst (state_reply ''init'')))\<lparr>status_running := sconst False\<rparr>))
     = Some (Inl (AssertionError ''Microservice system doesn't exist''), False)"
proof -
  let ?e = "sconst (Inl HTTPError) :: (error + json) stream"
  let ?f = "sconst (state_reply ''failed'')"
  let ?ne = "fresh_node (state_reply ''init'' ## state_reply ''running'' ## ?e)"
  let ?ne1 = "(fresh_node (state_reply ''running'' ## ?e))\<lparr>present := True\<rparr>"
  let ?nf = "fresh_node (state_reply ''init'' ## state_reply ''running'' ## ?f)"
  let ?nf1 = "(fresh_node (state_reply ''running'' ## ?f))\<lparr>present := True\<rparr>"
  let ?v = "(fresh_node (sconst (state_reply ''init'')))\<lparr>posted_config_matches := sconst False\<rparr>"
  let ?w = "(fresh_node (sconst (state_reply ''init'')))\<lparr>status_running := sconst False\<rparr>"
  have nr: "\<not> dont_remove_scheduler default_args" "\<not> custom_scheduler default_args"
    by (simp_all add: default_args_def)
  have te: "start_scheduler_try default_args 300 ?ne = Some (Inr (), ?ne1)" by (rule start_try_fresh)
  have tf: "start_scheduler_try default_args 300 ?nf = Some (Inr (), ?nf1)" by (rule start_try_fresh)
  have se: "(\<forall>i < 1. still_running (proxy_status ?ne1 !! i))
      \<and> scheduler_state (proxy_status ?ne1 !! 1) = Inl HTTPError"
    by (simp add: fresh_node_def still_running_def state_reply_def)
  have sf: "(\<forall>i < 1. still_running (proxy_status ?nf1 !! i))
      \<and> scheduler_state (proxy_status ?nf1 !! 1) = Inr (JString ''failed'')"
    by (simp add: fresh_node_def still_running_def state_reply_def)
  have hv: "(\<forall>i < 60. \<not> posted_config_matches ?v !! i) \<and> log_request ?v = None"
    by (simp add: fresh_node_def)
  have hw: "(0 :: nat) < 60 \<and> posted_config_matches ?w !! 0
      \<and> (\<forall>i < 60. \<not> status_running ?w !! i) \<and> log_request ?w = None"
    by (simp add: fresh_node_def)
  from run_ends_with_teardown [where a = default_args and n = ?ne and ?n1.0 = ?ne1
      and k = 1 and e = HTTPError] te se nr
  have 1: "ending (run default_args ?ne) = Some (Inl HTTPError, False)" by simp
  from run_ends_with_teardown [where a = default_args and n = ?nf and ?n1.0 = ?nf1 and k = 1] tf sf nr
  have 2: "ending (run default_args ?nf) = Some (Inr Failed, False)" by simp
  from run_ends_with_teardown [where a = default_args and n = ?v] hv nr
  have 3: "ending (run default_args ?v)
      = Some (Inl (AssertionError ''Microservice system doesn't exist''), False)" by blast
  from run_ends_with_teardown [where a = default_args and n = ?w and j = 0] hw nr
  have 4: "ending (run default_args ?w)
      = Some (Inl (AssertionError ''Microservice system doesn't exist''), False)" by blast
  from 1 2 3 4 show ?thesis by blast
qed



end
